theory Spec2Isabelle
  imports Main "HOL-Library.Word"
begin

section \<open>The UDP transceiver of Ice (cpp/src/Ice/UdpTransceiver.cpp)\<close>

text \<open>
  The class \<^verbatim>\<open>IceInternal::UdpTransceiver\<close> is embedded as a record of its data
  members and one HOL function per member function. Everything the class asks of the
  operating system or of the helpers of \<^verbatim>\<open>Ice/Network.h\<close> goes through \<open>os_call\<close>,
  which appends the call to a log and takes the answer from an oracle: the answer to the
  \<open>k\<close>-th call is \<open>replies w k\<close>. The world also keeps what was written to the logger, to
  the statistics and to \<^verbatim>\<open>cerr\<close>, and which sockets are open. Exceptions and failed
  assertions are values. The two \<^verbatim>\<open>goto\<close> loops are partial functions into \<open>option\<close>:
  \<open>None\<close> is a call that never returns.
\<close>

subsection \<open>Data\<close>

type_synonym byte = "8 word"

text \<open>The conditional compilation of the file: \<^verbatim>\<open>_WIN32\<close>, the Unix systems named with it
  in \<^verbatim>\<open>shutdownReadWrite\<close>, and every other Unix.\<close>

datatype platform = Windows | Sun | Hppa | Aix | Apple | OtherUnix

definition WIN32 :: "platform \<Rightarrow> bool" where
  "WIN32 p = (p = Windows)"

definition wake_explicitly :: "platform \<Rightarrow> bool" where
  \<comment> \<open>\<^verbatim>\<open>defined(_WIN32) || defined(__sun) || defined(__hppa) || defined(_AIX) || defined(__APPLE__)\<close>\<close>
  "wake_explicitly p = (p = Windows \<or> p = Sun \<or> p = Hppa \<or> p = Aix \<or> p = Apple)"

datatype family = AF_INET | AF_INET6 | AF_UNSPEC

record sockaddr_storage =
  ss_family :: family
  s_addr :: nat  \<comment> \<open>the address in host byte order\<close>
  s_port :: nat  \<comment> \<open>the port in host byte order\<close>

datatype exception =
    DatagramLimitException
  | MemoryLimitException
  | ConnectionLostException
  | TimeoutException
  | SocketException int  \<comment> \<open>\<^verbatim>\<open>ex.error\<close>\<close>
  | ConnectFailedException int
  | DNSException int
  | BufferResizeFailure  \<comment> \<open>\<^verbatim>\<open>buf.b.resize\<close> asked for a size that cannot be allocated\<close>

text \<open>How a call ends when it does not return a value: \<^verbatim>\<open>throw e\<close> throws the exception
  object, \<^verbatim>\<open>throw new e\<close> throws a pointer to one (a handler for the exception's class
  does not catch it), a failed \<^verbatim>\<open>assert\<close> aborts.\<close>

datatype failure = Throw exception | ThrowNew exception | AssertionFailed

record buffer =
  buf_b :: "byte list"  \<comment> \<open>\<^verbatim>\<open>buf.b\<close>\<close>
  buf_i :: nat          \<comment> \<open>\<^verbatim>\<open>buf.i\<close>, as an offset from \<^verbatim>\<open>buf.b.begin()\<close>\<close>

text \<open>The data members; \<^verbatim>\<open>_x\<close> of the class is the field \<open>m_x\<close>.\<close>

record transceiver =
  m_traceLevels :: int  \<comment> \<open>\<^verbatim>\<open>_traceLevels->network\<close>\<close>
  m_stats :: bool       \<comment> \<open>\<^verbatim>\<open>_stats\<close> is not null\<close>
  m_incoming :: bool
  m_addr :: sockaddr_storage
  m_fd :: int
  m_mcastServer :: bool
  m_connect :: bool
  m_warn :: bool
  m_shutdownReadWrite :: bool
  m_rcvSize :: int
  m_sndSize :: int

definition INVALID_SOCKET :: int where
  "INVALID_SOCKET = - 1"

definition SOCKET_ERROR :: int where
  "SOCKET_ERROR = - 1"

definition udpOverhead :: int where
  "udpOverhead = 20 + 8"

definition maxPacketSize :: int where
  "maxPacketSize = 65535 - udpOverhead"

subsection \<open>The operating system\<close>

datatype events = POLLIN | POLLOUT

datatype call =
    Send int "byte list"
  | Poll int events int
  | Select int events "(int \<times> int) option"  \<comment> \<open>\<^verbatim>\<open>tv_sec\<close> and \<^verbatim>\<open>tv_usec\<close>, or a null timeout\<close>
  | Recv int int
  | RecvFrom int int
  | RawConnect int family
  | DoConnect int sockaddr_storage int
  | DoBind int sockaddr_storage
  | CreateSocket bool family
  | CloseSocket int
  | SetBlock int bool
  | ShutdownSocketReadWrite int
  | FdToLocalAddress int
  | GetAddressForServer string int
  | SetReuseAddress int bool
  | SetMcastGroup int sockaddr_storage string
  | SetMcastInterface int string bool
  | SetMcastTtl int int bool
  | GetRecvBufferSize int
  | GetSendBufferSize int
  | SetRecvBufferSize int int
  | SetSendBufferSize int int

text \<open>What a call answers, as the code reads it: the returned value, what
  \<^verbatim>\<open>interrupted()\<close>, \<^verbatim>\<open>wouldBlock()\<close>, \<^verbatim>\<open>recvTruncated()\<close> and \<^verbatim>\<open>getSocketErrno()\<close>
  say after it, the bytes and the address it stored through its pointer arguments, and
  the exception a helper of \<^verbatim>\<open>Ice/Network.h\<close> threw.\<close>

record os_reply =
  ret :: int
  interrupted :: bool
  wouldBlock :: bool
  recvTruncated :: bool
  getSocketErrno :: int
  payload :: "byte list"
  address :: sockaddr_storage
  thrown :: "exception option"

datatype log_msg =
    Trace string
  | WarnDatagramLimit int       \<comment> \<open>"DatagramLimitException: maximum size of N exceeded"\<close>
  | WarnInvalidSize string int int  \<comment> \<open>"Invalid P value of R adjusted to D"\<close>
  | WarnAdjustedSize string int int \<comment> \<open>"UDP D buffer size: requested size of R adjusted to A"\<close>
  | Cerr int int int  \<comment> \<open>the line \<^verbatim>\<open>write\<close> prints on \<^verbatim>\<open>cerr\<close> before it throws\<close>
  | BytesSent string int
  | BytesReceived string int

record world =
  replies :: "nat \<Rightarrow> os_reply"
  calls :: "call list"
  logged :: "log_msg list"
  opened :: "int list"  \<comment> \<open>the sockets that are open\<close>

definition os_call :: "call \<Rightarrow> world \<Rightarrow> os_reply \<times> world" where
  "os_call c w = (replies w (length (calls w)), w\<lparr>calls := calls w @ [c]\<rparr>)"

text \<open>The socket a call is handed.\<close>

definition socket_of :: "call \<Rightarrow> int option" where
  "socket_of c =
    (case c of
       Send fd d \<Rightarrow> Some fd
     | Poll fd e tm \<Rightarrow> Some fd
     | Select fd e tv \<Rightarrow> Some fd
     | Recv fd n \<Rightarrow> Some fd
     | RecvFrom fd n \<Rightarrow> Some fd
     | RawConnect fd fam \<Rightarrow> Some fd
     | DoConnect fd a tm \<Rightarrow> Some fd
     | DoBind fd a \<Rightarrow> Some fd
     | CreateSocket udp fam \<Rightarrow> None
     | CloseSocket fd \<Rightarrow> Some fd
     | SetBlock fd blk \<Rightarrow> Some fd
     | ShutdownSocketReadWrite fd \<Rightarrow> Some fd
     | FdToLocalAddress fd \<Rightarrow> Some fd
     | GetAddressForServer host port \<Rightarrow> None
     | SetReuseAddress fd reuse \<Rightarrow> Some fd
     | SetMcastGroup fd a intf \<Rightarrow> Some fd
     | SetMcastInterface fd intf v4 \<Rightarrow> Some fd
     | SetMcastTtl fd ttl v4 \<Rightarrow> Some fd
     | GetRecvBufferSize fd \<Rightarrow> Some fd
     | GetSendBufferSize fd \<Rightarrow> Some fd
     | SetRecvBufferSize fd v \<Rightarrow> Some fd
     | SetSendBufferSize fd v \<Rightarrow> Some fd)"

definition forget :: "int option \<Rightarrow> world \<Rightarrow> world" where
  "forget s w = (case s of None \<Rightarrow> w | Some fd \<Rightarrow> w\<lparr>opened := removeAll fd (opened w)\<rparr>)"

text \<open>What a helper that returns does to the open sockets: \<^verbatim>\<open>createSocket\<close> opens the one
  it returns, \<^verbatim>\<open>closeSocket\<close> closes the one it is handed.\<close>

definition effect :: "call \<Rightarrow> os_reply \<Rightarrow> world \<Rightarrow> world" where
  "effect c r w =
    (case c of
       CreateSocket udp fam \<Rightarrow> w\<lparr>opened := opened w @ [ret r]\<rparr>
     | CloseSocket fd \<Rightarrow> forget (Some fd) w
     | _ \<Rightarrow> w)"

text \<open>Modelled from the spec: the helpers of \<^verbatim>\<open>Ice/Network.h\<close> are not in this file. A
  helper returns or throws, and one that throws has closed the socket it was handed: by
  4.1 (5) of the spec a step of the construction that fails has released the socket, and
  the class is written against such helpers (the handlers of the constructors only
  overwrite \<^verbatim>\<open>_fd\<close>, and \<^verbatim>\<open>shutdownReadWrite\<close> has no handler for its second socket).\<close>

definition helper :: "call \<Rightarrow> world \<Rightarrow> (exception + os_reply) \<times> world" where
  "helper c w =
    (let (r, w1) = os_call c w
     in case thrown r of
          Some e \<Rightarrow> (Inl e, forget (socket_of c) w1)
        | None \<Rightarrow> (Inr r, effect c r w1))"

definition put :: "log_msg \<Rightarrow> world \<Rightarrow> world" where
  "put m w = w\<lparr>logged := logged w @ [m]\<rparr>"

definition put_if :: "bool \<Rightarrow> log_msg \<Rightarrow> world \<Rightarrow> world" where
  "put_if c m w = (if c then put m w else w)"

text \<open>The difference of two \<^verbatim>\<open>int\<close>: modulo \<open>2^32\<close>, read as two's complement.\<close>

definition sub_int :: "int \<Rightarrow> int \<Rightarrow> int" where
  "sub_int a b =
     (let m = (a - b) mod 2 ^ 32 in if m < 2 ^ 31 then m else m - 2 ^ 32)"

text \<open>\<^verbatim>\<open>static_cast<int>\<close> of a \<^verbatim>\<open>size_t\<close>: the value modulo \<open>2^32\<close>, read as two's
  complement.\<close>

definition static_cast_int :: "nat \<Rightarrow> int" where
  "static_cast_int n =
     (let m = int n mod 2 ^ 32 in if m < 2 ^ 31 then m else m - 2 ^ 32)"

text \<open>\<^verbatim>\<open>buf.b.resize(n)\<close>: cut, or fill up with zero bytes.\<close>

definition resize :: "nat \<Rightarrow> byte list \<Rightarrow> byte list" where
  "resize n xs = take n xs @ replicate (n - length xs) 0"

text \<open>A receive call stores the datagram at the start of the buffer it was given.\<close>

definition stored :: "byte list \<Rightarrow> byte list \<Rightarrow> byte list" where
  "stored d xs = take (length xs) (d @ drop (length d) xs)"

subsection \<open>write\<close>

datatype label = Repeat | RepeatSelect

definition type :: string where
  "type = ''udp''"

definition wait_call :: "platform \<Rightarrow> int \<Rightarrow> int \<Rightarrow> call" where
  \<comment> \<open>the wait of \<^verbatim>\<open>write\<close>: \<^verbatim>\<open>select\<close> with a \<^verbatim>\<open>timeval\<close> or without, or \<^verbatim>\<open>poll\<close>\<close>
  "wait_call p fd timeout =
     (if WIN32 p then
        (if timeout \<ge> 0 then
           (let tv_sec = timeout div 1000; tv_usec = (timeout - tv_sec * 1000) * 1000
            in Select fd POLLOUT (Some (tv_sec, tv_usec)))
         else Select fd POLLOUT None)
      else Poll fd POLLOUT timeout)"

partial_function (option) write_loop ::
  "platform \<Rightarrow> label \<Rightarrow> transceiver \<Rightarrow> buffer \<Rightarrow> int \<Rightarrow> world \<Rightarrow>
   ((failure + bool) \<times> buffer \<times> world) option" where
  "write_loop p l t buf timeout w =
    (case l of
       Repeat \<Rightarrow>
         if m_fd t = INVALID_SOCKET then Some (Inl AssertionFailed, buf, w)
         else
           (let (r, w1) = os_call (Send (m_fd t) (buf_b buf)) w in
            if ret r = SOCKET_ERROR then
              (if interrupted r then write_loop p Repeat t buf timeout w1
               else if wouldBlock r then write_loop p RepeatSelect t buf timeout w1
               else Some (Inl (Throw (SocketException (getSocketErrno r))), buf, w1))
            else
              (let w2 = put_if (m_traceLevels t \<ge> 3) (Trace ''sent bytes via udp'') w1;
                   w3 = put_if (m_stats t) (BytesSent type (ret r)) w2
               in if ret r \<noteq> int (length (buf_b buf)) then Some (Inl AssertionFailed, buf, w3)
                  else Some (Inr True, buf\<lparr>buf_i := length (buf_b buf)\<rparr>, w3)))
     | RepeatSelect \<Rightarrow>
         if timeout = 0 then Some (Inr False, buf, w)
         else if m_fd t = INVALID_SOCKET then Some (Inl AssertionFailed, buf, w)
         else
           (let (r, w1) = os_call (wait_call p (m_fd t) timeout) w in
            if ret r = SOCKET_ERROR then
              (if interrupted r then write_loop p RepeatSelect t buf timeout w1
               else Some (Inl (Throw (SocketException (getSocketErrno r))), buf, w1))
            else if ret r = 0 then Some (Inl (ThrowNew TimeoutException), buf, w1)
            else write_loop p Repeat t buf timeout w1))"

declare write_loop.simps [code]

definition write_udp ::
  "platform \<Rightarrow> transceiver \<Rightarrow> buffer \<Rightarrow> int \<Rightarrow> world \<Rightarrow>
   ((failure + bool) \<times> buffer \<times> world) option" where
  "write_udp p t buf timeout w =
    (if buf_i buf \<noteq> 0 then Some (Inl AssertionFailed, buf, w)
     else
       (let packetSize = min maxPacketSize (sub_int (m_sndSize t) udpOverhead) in
        if packetSize < static_cast_int (length (buf_b buf)) then
          Some (Inl (Throw DatagramLimitException), buf,
                put (Cerr packetSize maxPacketSize (m_sndSize t)) w)
        else write_loop p Repeat t buf timeout w))"

subsection \<open>read\<close>

text \<open>The receive of one round of \<^verbatim>\<open>read\<close>: \<^verbatim>\<open>recvfrom\<close> and the connect to the sender
  while \<^verbatim>\<open>_connect\<close> is set, \<^verbatim>\<open>recv\<close> otherwise. It hands back the answer of the receive
  call, or the failure of \<^verbatim>\<open>doConnect\<close>.\<close>

definition receive ::
  "int \<Rightarrow> transceiver \<Rightarrow> buffer \<Rightarrow> world \<Rightarrow>
   (failure + os_reply) \<times> transceiver \<times> buffer \<times> world" where
  "receive packetSize t buf w =
    (if m_fd t = INVALID_SOCKET then (Inl AssertionFailed, t, buf, w)
     else if m_connect t then
       (let (r, w1) = os_call (RecvFrom (m_fd t) packetSize) w in
        if ret r \<noteq> SOCKET_ERROR then
          (let buf1 = buf\<lparr>buf_b := stored (payload r) (buf_b buf)\<rparr>
           in case helper (DoConnect (m_fd t) (address r) (- 1)) w1 of
                (Inl e, w2) \<Rightarrow> (Inl (Throw e), t, buf1, w2)
              | (Inr rc, w2) \<Rightarrow>
                  (Inr r, t\<lparr>m_connect := False\<rparr>, buf1,
                   put_if (m_traceLevels t \<ge> 1) (Trace ''connected udp socket'') w2))
        else (Inr r, t, buf, w1))
     else
       (let (r, w1) = os_call (Recv (m_fd t) packetSize) w in
        if ret r \<noteq> SOCKET_ERROR
        then (Inr r, t, buf\<lparr>buf_b := stored (payload r) (buf_b buf)\<rparr>, w1)
        else (Inr r, t, buf, w1)))"

definition read_wait_call :: "platform \<Rightarrow> int \<Rightarrow> call" where
  \<comment> \<open>the wait of \<^verbatim>\<open>read\<close>: \<^verbatim>\<open>select\<close> with a null timeout, or \<^verbatim>\<open>poll\<close> with \<open>-1\<close>\<close>
  "read_wait_call p fd = (if WIN32 p then Select fd POLLIN None else Poll fd POLLIN (- 1))"

partial_function (option) read_loop ::
  "platform \<Rightarrow> label \<Rightarrow> int \<Rightarrow> transceiver \<Rightarrow> buffer \<Rightarrow> int \<Rightarrow> world \<Rightarrow>
   ((failure + bool) \<times> transceiver \<times> buffer \<times> world) option" where
  "read_loop p l packetSize t buf timeout w =
    (case l of
       Repeat \<Rightarrow>
         if m_shutdownReadWrite t then Some (Inl (Throw ConnectionLostException), t, buf, w)
         else
           (case receive packetSize t buf w of
              (Inl f, t1, buf1, w1) \<Rightarrow> Some (Inl f, t1, buf1, w1)
            | (Inr r, t1, buf1, w1) \<Rightarrow>
                if ret r = SOCKET_ERROR then
                  (if interrupted r then read_loop p Repeat packetSize t1 buf1 timeout w1
                   else if wouldBlock r then
                     (if timeout = 0 then Some (Inr False, t1, buf1, w1)
                      else read_loop p RepeatSelect packetSize t1 buf1 timeout w1)
                   else if recvTruncated r then
                     Some (Inl (Throw DatagramLimitException), t1, buf1,
                           put_if (m_warn t1) (WarnDatagramLimit packetSize) w1)
                   else Some (Inl (Throw (SocketException (getSocketErrno r))), t1, buf1, w1))
                else
                  (let w2 = put_if (m_traceLevels t1 \<ge> 3) (Trace ''received bytes via udp'') w1;
                       w3 = put_if (m_stats t1) (BytesReceived type (ret r)) w2
                   in Some (Inr True, t1,
                            buf1\<lparr>buf_b := resize (nat (ret r)) (buf_b buf1), buf_i := nat (ret r)\<rparr>,
                            w3)))
     | RepeatSelect \<Rightarrow>
         if m_fd t = INVALID_SOCKET then Some (Inl AssertionFailed, t, buf, w)
         else
           (let (r, w1) = os_call (read_wait_call p (m_fd t)) w in
            if ret r = SOCKET_ERROR then
              (if interrupted r then read_loop p RepeatSelect packetSize t buf timeout w1
               else Some (Inl (Throw (SocketException (getSocketErrno r))), t, buf, w1))
            else if ret r = 0 then Some (Inl (Throw TimeoutException), t, buf, w1)
            else read_loop p Repeat packetSize t buf timeout w1))"

declare read_loop.simps [code]

definition read_udp ::
  "platform \<Rightarrow> transceiver \<Rightarrow> buffer \<Rightarrow> int \<Rightarrow> world \<Rightarrow>
   ((failure + bool) \<times> transceiver \<times> buffer \<times> world) option" where
  "read_udp p t buf timeout w =
    (if buf_i buf \<noteq> 0 then Some (Inl AssertionFailed, t, buf, w)
     else
       (let packetSize = min maxPacketSize (sub_int (m_rcvSize t) udpOverhead) in
        if packetSize < static_cast_int (length (buf_b buf)) then
          Some (Inl (Throw DatagramLimitException), t, buf,
                put_if (m_warn t) (WarnDatagramLimit packetSize) w)
        else if packetSize < 0 then Some (Inl (Throw BufferResizeFailure), t, buf, w)
        else
          read_loop p Repeat packetSize t
            (buf\<lparr>buf_b := resize (nat packetSize) (buf_b buf), buf_i := 0\<rparr>) timeout w))"

subsection \<open>The other member functions\<close>

text \<open>A statement of a member function: it may end the function with a failure, and it
  updates the object and the world. \<open>seq\<close> runs statements in order up to the first failure.\<close>

type_synonym stmt = "transceiver \<Rightarrow> world \<Rightarrow> failure option \<times> transceiver \<times> world"

definition on_return ::
  "(exception + os_reply) \<times> world \<Rightarrow> transceiver \<Rightarrow>
   (os_reply \<Rightarrow> world \<Rightarrow> failure option \<times> transceiver \<times> world) \<Rightarrow>
   failure option \<times> transceiver \<times> world" where
  "on_return x t k = (case x of (Inl e, w) \<Rightarrow> (Some (Throw e), t, w) | (Inr r, w) \<Rightarrow> k r w)"

definition call_stmt :: "(transceiver \<Rightarrow> call) \<Rightarrow> stmt" where
  "call_stmt c t w = on_return (helper (c t) w) t (\<lambda>r w1. (None, t, w1))"

fun seq :: "stmt list \<Rightarrow> stmt" where
  "seq [] t w = (None, t, w)"
| "seq (s # ss) t w =
     (case s t w of
        (Some f, t1, w1) \<Rightarrow> (Some f, t1, w1)
      | (None, t1, w1) \<Rightarrow> seq ss t1 w1)"

definition close :: stmt where
  "close t w =
    (let w1 = put_if (m_traceLevels t \<ge> 1) (Trace ''closing udp connection'') w in
     if m_fd t = INVALID_SOCKET then (Some AssertionFailed, t, w1)
     else on_return (helper (CloseSocket (m_fd t)) w1) t
            (\<lambda>r w2. (None, t\<lparr>m_fd := INVALID_SOCKET\<rparr>, w2)))"

definition shutdownWrite :: stmt where
  "shutdownWrite t w = (None, t, w)"

definition shutdownReadWrite :: "platform \<Rightarrow> stmt" where
  "shutdownReadWrite p t w =
    (let w1 = put_if (m_traceLevels t \<ge> 2)
                (Trace ''shutting down udp connection for reading and writing'') w;
         t1 = t\<lparr>m_shutdownReadWrite := True\<rparr>
     in if wake_explicitly p then
          on_return (helper (FdToLocalAddress (m_fd t1)) w1) t1 (\<lambda>ra w2.
            if m_fd t1 = INVALID_SOCKET then (Some AssertionFailed, t1, w2)
            else
              on_return (helper (ShutdownSocketReadWrite (m_fd t1)) w2) t1 (\<lambda>rs w3.
                let w4 = (if \<not> m_connect t1
                          then snd (os_call (RawConnect (m_fd t1) AF_UNSPEC) w3) else w3)
                in on_return (helper (CreateSocket True (ss_family (address ra))) w4) t1 (\<lambda>rf w5.
                     on_return (helper (SetBlock (ret rf) False) w5) t1 (\<lambda>rb w6.
                       on_return (helper (DoConnect (ret rf) (address ra) (- 1)) w6) t1 (\<lambda>rc w7.
                         let w8 = snd (os_call (Send (ret rf) [0]) w7)
                         in on_return (helper (CloseSocket (ret rf)) w8) t1
                              (\<lambda>rd w9. (None, t1, w9)))))))
        else if m_fd t1 = INVALID_SOCKET then (Some AssertionFailed, t1, w1)
        else on_return (helper (ShutdownSocketReadWrite (m_fd t1)) w1) t1
               (\<lambda>rs w2. (None, t1, w2)))"

definition checkSendSize :: "transceiver \<Rightarrow> buffer \<Rightarrow> nat \<Rightarrow> failure option" where
  "checkSendSize t buf messageSizeMax =
    (if length (buf_b buf) > messageSizeMax then Some (Throw MemoryLimitException)
     else
       (let packetSize = min maxPacketSize (sub_int (m_sndSize t) udpOverhead) in
        if packetSize < static_cast_int (length (buf_b buf))
        then Some (Throw DatagramLimitException) else None))"

subsection \<open>Construction\<close>

text \<open>What the constructors read from the \<^verbatim>\<open>Instance\<close>.\<close>

record InstancePtr =
  traceLevels :: int  \<comment> \<open>\<^verbatim>\<open>instance->traceLevels()->network\<close>\<close>
  stats :: bool        \<comment> \<open>\<^verbatim>\<open>instance->initializationData().stats\<close> is not null\<close>
  properties :: "string \<Rightarrow> int option"

text \<open>Modelled from the spec: the property set of \<^verbatim>\<open>Ice/Properties.h\<close> is not in this
  file. It is a read-only source of configured values, and a key that is absent has the
  default.\<close>

definition getPropertyAsIntWithDefault :: "InstancePtr \<Rightarrow> string \<Rightarrow> int \<Rightarrow> int" where
  "getPropertyAsIntWithDefault inst key dflt =
     (case properties inst key of None \<Rightarrow> dflt | Some v \<Rightarrow> v)"

definition getPropertyAsInt :: "InstancePtr \<Rightarrow> string \<Rightarrow> int" where
  "getPropertyAsInt inst key = getPropertyAsIntWithDefault inst key 0"

text \<open>One round of the loop of \<^verbatim>\<open>setBufSize\<close>: round \<open>0\<close> is the receive buffer, round \<open>1\<close>
  the send buffer.\<close>

definition setBufSize_round :: "InstancePtr \<Rightarrow> nat \<Rightarrow> stmt" where
  "setBufSize_round inst n t w =
    (let direction = (if n = 0 then ''receive'' else ''send'');
         prop = (if n = 0 then ''Ice.UDP.RcvSize'' else ''Ice.UDP.SndSize'');
         get_size = (if n = 0 then GetRecvBufferSize (m_fd t) else GetSendBufferSize (m_fd t));
         set_size = (\<lambda>v. if n = 0 then SetRecvBufferSize (m_fd t) v
                         else SetSendBufferSize (m_fd t) v);
         store = (\<lambda>v t'. if n = 0 then t'\<lparr>m_rcvSize := v\<rparr> else t'\<lparr>m_sndSize := v\<rparr>)
     in on_return (helper get_size w) t (\<lambda>rd w1.
          let dfltSize = ret rd;
              t1 = store dfltSize t;
              configured = getPropertyAsIntWithDefault inst prop dfltSize;
              w2 = put_if (configured < udpOverhead)
                     (WarnInvalidSize prop configured dfltSize) w1;
              sizeRequested = (if configured < udpOverhead then dfltSize else configured)
          in if sizeRequested \<noteq> dfltSize then
               on_return (helper (set_size sizeRequested) w2) t1 (\<lambda>rs w3.
                 on_return (helper get_size w3) t1 (\<lambda>rg w4.
                   (None, store (ret rg) t1,
                    put_if (ret rg < sizeRequested)
                      (WarnAdjustedSize direction sizeRequested (ret rg)) w4)))
             else (None, t1, w2)))"

definition setBufSize :: "InstancePtr \<Rightarrow> stmt" where
  "setBufSize inst t w =
    (if m_fd t = INVALID_SOCKET then (Some AssertionFailed, t, w)
     else seq [setBufSize_round inst 0, setBufSize_round inst 1] t w)"

text \<open>\<^verbatim>\<open>IN_MULTICAST\<close> and \<^verbatim>\<open>IN6_IS_ADDR_MULTICAST\<close> of the system headers: the class D
  addresses 224.0.0.0/4, and the addresses whose first byte is \<open>0xff\<close>.\<close>

definition IN_MULTICAST :: "nat \<Rightarrow> bool" where
  "IN_MULTICAST a = (a div 2 ^ 28 mod 16 = 14)"

definition IN6_IS_ADDR_MULTICAST :: "nat \<Rightarrow> bool" where
  "IN6_IS_ADDR_MULTICAST a = (a div 2 ^ 120 mod 256 = 255)"

definition multicast :: "sockaddr_storage \<Rightarrow> bool" where
  "multicast a =
     (if ss_family a = AF_INET then IN_MULTICAST (s_addr a) else IN6_IS_ADDR_MULTICAST (s_addr a))"

definition createSocket :: stmt where
  "createSocket t w =
     on_return (helper (CreateSocket True (ss_family (m_addr t))) w) t
       (\<lambda>r w1. (None, t\<lparr>m_fd := ret r\<rparr>, w1))"

definition assign_stmt :: "(transceiver \<Rightarrow> transceiver) \<Rightarrow> stmt" where
  "assign_stmt f t w = (None, f t, w)"

definition trace_stmt :: "int \<Rightarrow> string \<Rightarrow> stmt" where
  "trace_stmt level msg t w = (None, t, put_if (m_traceLevels t \<ge> level) (Trace msg) w)"

definition when_stmt :: "(transceiver \<Rightarrow> bool) \<Rightarrow> stmt \<Rightarrow> stmt" where
  "when_stmt c s t w = (if c t then s t w else (None, t, w))"

text \<open>The \<^verbatim>\<open>catch(...)\<close> of both constructors: the handle is overwritten and the exception
  thrown again; a failed assertion is not an exception.\<close>

definition catch_all :: "failure option \<times> transceiver \<times> world \<Rightarrow> failure option \<times> transceiver \<times> world" where
  "catch_all x =
    (case x of
       (Some AssertionFailed, t, w) \<Rightarrow> (Some AssertionFailed, t, w)
     | (Some f, t, w) \<Rightarrow> (Some f, t\<lparr>m_fd := INVALID_SOCKET\<rparr>, w)
     | (None, t, w) \<Rightarrow> (None, t, w))"

text \<open>The constructor for sending. \<open>raw\<close> is the storage of the object before
  construction: a member the constructor does not set keeps what was there.\<close>

definition UdpTransceiver_connect ::
  "InstancePtr \<Rightarrow> sockaddr_storage \<Rightarrow> string \<Rightarrow> int \<Rightarrow> stmt" where
  "UdpTransceiver_connect inst addr mcastInterface mcastTtl raw w =
    catch_all
      (seq
        [createSocket,
         setBufSize inst,
         call_stmt (\<lambda>t. SetBlock (m_fd t) False),
         call_stmt (\<lambda>t. DoConnect (m_fd t) (m_addr t) (- 1)),
         assign_stmt (\<lambda>t. t\<lparr>m_connect := False\<rparr>),
         when_stmt (\<lambda>t. multicast (m_addr t) \<and> length mcastInterface > 0)
           (call_stmt (\<lambda>t. SetMcastInterface (m_fd t) mcastInterface
                              (ss_family (m_addr t) = AF_INET))),
         when_stmt (\<lambda>t. multicast (m_addr t) \<and> mcastTtl \<noteq> - 1)
           (call_stmt (\<lambda>t. SetMcastTtl (m_fd t) mcastTtl (ss_family (m_addr t) = AF_INET))),
         trace_stmt 1 ''starting to send udp packets'']
        (raw\<lparr>m_traceLevels := traceLevels inst,
             m_stats := stats inst,
             m_incoming := False,
             m_addr := addr,
             m_connect := True,
             m_warn := (getPropertyAsInt inst ''Ice.Warn.Datagrams'' > 0),
             m_shutdownReadWrite := False\<rparr>)
        w)"

text \<open>Modelled from the spec: \<^verbatim>\<open>getAddressForServer\<close> of \<^verbatim>\<open>Ice/Network.h\<close> is not in this
  file. An empty host is the wildcard address (4.2 of the spec), for which there is
  nothing to resolve: the call returns. The resolution of a host that is given can fail.\<close>

definition resolve :: "string \<Rightarrow> int \<Rightarrow> world \<Rightarrow> (exception + os_reply) \<times> world" where
  "resolve host port w =
    (if host = [] then (let (r, w1) = os_call (GetAddressForServer host port) w in (Inr r, w1))
     else helper (GetAddressForServer host port) w)"

definition getAddressForServer :: "string \<Rightarrow> int \<Rightarrow> stmt" where
  "getAddressForServer host port t w =
     on_return (resolve host port w) t (\<lambda>r w1. (None, t\<lparr>m_addr := address r\<rparr>, w1))"

text \<open>The bind of a multicast address: on Windows to the wildcard address of the same
  port, elsewhere to the address itself.\<close>

definition bind_multicast :: "platform \<Rightarrow> stmt" where
  "bind_multicast p t w =
    (if WIN32 p then
       on_return (resolve [] (int (s_port (m_addr t))) w) t
         (\<lambda>r w1. call_stmt (\<lambda>t. DoBind (m_fd t) (address r)) t w1)
     else call_stmt (\<lambda>t. DoBind (m_fd t) (m_addr t)) t w)"

text \<open>The constructor for receiving.\<close>

definition UdpTransceiver_bind ::
  "platform \<Rightarrow> InstancePtr \<Rightarrow> string \<Rightarrow> int \<Rightarrow> string \<Rightarrow> bool \<Rightarrow> stmt" where
  "UdpTransceiver_bind p inst host port mcastInterface connect raw w =
    catch_all
      (seq
        [getAddressForServer host port,
         createSocket,
         setBufSize inst,
         call_stmt (\<lambda>t. SetBlock (m_fd t) False),
         trace_stmt 2 ''attempting to bind to udp socket'',
         when_stmt (\<lambda>t. multicast (m_addr t))
           (seq [call_stmt (\<lambda>t. SetReuseAddress (m_fd t) True),
                 bind_multicast p,
                 call_stmt (\<lambda>t. SetMcastGroup (m_fd t) (m_addr t) mcastInterface),
                 assign_stmt (\<lambda>t. t\<lparr>m_mcastServer := True\<rparr>)]),
         when_stmt (\<lambda>t. \<not> multicast (m_addr t))
           (seq [when_stmt (\<lambda>t. \<not> WIN32 p) (call_stmt (\<lambda>t. SetReuseAddress (m_fd t) True)),
                 call_stmt (\<lambda>t. DoBind (m_fd t) (m_addr t))]),
         trace_stmt 1 ''starting to receive udp packets'']
        (raw\<lparr>m_traceLevels := traceLevels inst,
             m_stats := stats inst,
             m_incoming := True,
             m_connect := connect,
             m_warn := (getPropertyAsInt inst ''Ice.Warn.Datagrams'' > 0),
             m_shutdownReadWrite := False\<rparr>)
        w)"

subsection \<open>Vocabulary of the statements\<close>

text \<open>The answer the next call will get, and the world after a call.\<close>

definition reply :: "world \<Rightarrow> os_reply" where
  "reply w = replies w (length (calls w))"

definition called :: "call \<Rightarrow> world \<Rightarrow> world" where
  "called c w = w\<lparr>calls := calls w @ [c]\<rparr>"

text \<open>The receive call of \<^verbatim>\<open>read\<close> in the state \<open>t\<close>.\<close>

definition recv_call :: "int \<Rightarrow> transceiver \<Rightarrow> call" where
  "recv_call packetSize t =
     (if m_connect t then RecvFrom (m_fd t) packetSize else Recv (m_fd t) packetSize)"

text \<open>The answers after which the loops go round again: the call failed and
  \<^verbatim>\<open>interrupted()\<close> holds; the call failed, \<^verbatim>\<open>interrupted()\<close> does not hold and
  \<^verbatim>\<open>wouldBlock()\<close> does.\<close>

definition was_interrupted :: "os_reply \<Rightarrow> bool" where
  "was_interrupted r = (ret r = SOCKET_ERROR \<and> interrupted r)"

definition would_block :: "os_reply \<Rightarrow> bool" where
  "would_block r = (ret r = SOCKET_ERROR \<and> \<not> interrupted r \<and> wouldBlock r)"

definition is_receive :: "call \<Rightarrow> bool" where
  "is_receive c = (case c of Recv fd n \<Rightarrow> True | RecvFrom fd n \<Rightarrow> True | _ \<Rightarrow> False)"

definition is_close :: "call \<Rightarrow> bool" where
  "is_close c = (case c of CloseSocket fd \<Rightarrow> True | _ \<Rightarrow> False)"

text \<open>The ceilings of \<^verbatim>\<open>write\<close> and \<^verbatim>\<open>read\<close>.\<close>

definition send_ceiling :: "transceiver \<Rightarrow> int" where
  "send_ceiling t = min maxPacketSize (sub_int (m_sndSize t) udpOverhead)"

definition recv_ceiling :: "transceiver \<Rightarrow> int" where
  "recv_ceiling t = min maxPacketSize (sub_int (m_rcvSize t) udpOverhead)"

text \<open>The world after \<open>n\<close> calls \<open>c\<close> in a row.\<close>

definition called_n :: "nat \<Rightarrow> call \<Rightarrow> world \<Rightarrow> world" where
  "called_n n c w = w\<lparr>calls := calls w @ replicate n c\<rparr>"

definition retryable :: "os_reply \<Rightarrow> bool" where
  "retryable r = (was_interrupted r \<or> would_block r)"

text \<open>What a call of the loop of \<^verbatim>\<open>read\<close> that returns \<open>y\<close> from the world \<open>w\<close>, the
  object \<open>t\<close> and the buffer \<open>buf\<close> has done.\<close>

definition read_post ::
  "int \<Rightarrow> world \<Rightarrow> transceiver \<Rightarrow> buffer \<Rightarrow> (failure + bool) \<times> transceiver \<times> buffer \<times> world \<Rightarrow> bool" where
  "read_post ps w t buf y =
    (case y of (res, t', buf', w') \<Rightarrow>
       replies w' = replies w \<and> length (calls w) \<le> length (calls w')
     \<and> (res \<noteq> Inr True \<longrightarrow> t' = t)
     \<and> (res = Inr True \<longrightarrow> t' = t\<lparr>m_connect := False\<rparr>)
     \<and> (res = Inr True \<and> m_connect t \<longrightarrow>
          (\<exists>cs. calls w' = cs @ [RecvFrom (m_fd t) ps,
                                    DoConnect (m_fd t) (address (replies w (length cs))) (- 1)]))
     \<and> (res \<noteq> Inr True \<longrightarrow> length (buf_b buf') = length (buf_b buf))
     \<and> (res = Inr True \<longrightarrow> buf_i buf' = length (buf_b buf') \<and>
          (\<exists>k. length (calls w) \<le> k \<and> k < length (calls w') \<and> is_receive (calls w' ! k)
             \<and> ret (replies w k) \<noteq> SOCKET_ERROR
             \<and> buf_b buf' =
                 resize (nat (ret (replies w k))) (stored (payload (replies w k)) (buf_b buf)))))"

text \<open>A statement that does not change \<open>g\<close> of the object.\<close>

definition keeps :: "(transceiver \<Rightarrow> 'a) \<Rightarrow> stmt \<Rightarrow> bool" where
  "keeps g s = (\<forall>t w. g (fst (snd (s t w))) = g t)"

text \<open>A failed run: the last call made was handed the socket \<open>fd\<close> and threw \<open>e\<close>, and
  \<open>fd\<close> is not open any more.\<close>

definition failed_at :: "exception \<Rightarrow> int \<Rightarrow> world \<Rightarrow> bool" where
  "failed_at e fd w =
    (calls w \<noteq> [] \<and>
     thrown (replies w (length (calls w) - 1)) = Some e \<and>
     socket_of (last (calls w)) = Some fd \<and>
     fd \<notin> set (opened w))"

text \<open>What holds after a statement that runs with the socket \<open>fd\<close> created and open: it
  returns with \<open>fd\<close> still the handle and open, or it fails as above.\<close>

definition passed :: "int \<Rightarrow> failure option \<times> transceiver \<times> world \<Rightarrow> bool" where
  "passed fd x =
    (case x of (f, t, w) \<Rightarrow>
       (f = None \<longrightarrow> m_fd t = fd \<and> fd \<in> set (opened w)) \<and>
       (\<forall>e. f = Some (Throw e) \<longrightarrow> failed_at e fd w))"

definition after_socket :: "int \<Rightarrow> stmt \<Rightarrow> bool" where
  "after_socket fd s = (\<forall>t w. m_fd t = fd \<and> fd \<in> set (opened w) \<longrightarrow> passed fd (s t w))"

text \<open>The \<open>k\<close>-th call made threw \<open>e\<close>. (The resolution of the wildcard address does not
  throw.)\<close>

definition is_wildcard :: "call \<Rightarrow> bool" where
  "is_wildcard c = (case c of GetAddressForServer host port \<Rightarrow> host = [] | _ \<Rightarrow> False)"

definition raised :: "world \<Rightarrow> nat \<Rightarrow> exception \<Rightarrow> bool" where
  "raised w k e =
     (k < length (calls w) \<and> \<not> is_wildcard (calls w ! k) \<and> thrown (replies w k) = Some e)"

text \<open>A run from the world \<open>w\<close> in which no exception is lost: an exception that a call of
  the run threw is the exception the run ends with, and that call is the last one made.\<close>

definition loud :: "world \<Rightarrow> failure option \<times> transceiver \<times> world \<Rightarrow> bool" where
  "loud w x =
    (case x of (f, t', w') \<Rightarrow>
       replies w' = replies w \<and> (\<exists>cs. calls w' = calls w @ cs) \<and>
       (\<forall>k e. length (calls w) \<le> k \<and> raised w' k e \<longrightarrow>
              f = Some (Throw e) \<and> Suc k = length (calls w')))"

definition propagates :: "stmt \<Rightarrow> bool" where
  "propagates s = (\<forall>t w. loud w (s t w))"

text \<open>The two directions of \<^verbatim>\<open>setBufSize\<close>, by the number of the round.\<close>

definition size_prop :: "nat \<Rightarrow> string" where
  "size_prop n = (if n = 0 then ''Ice.UDP.RcvSize'' else ''Ice.UDP.SndSize'')"

definition direction :: "nat \<Rightarrow> string" where
  "direction n = (if n = 0 then ''receive'' else ''send'')"

definition get_size_call :: "nat \<Rightarrow> int \<Rightarrow> call" where
  "get_size_call n fd = (if n = 0 then GetRecvBufferSize fd else GetSendBufferSize fd)"

definition set_size_call :: "nat \<Rightarrow> int \<Rightarrow> int \<Rightarrow> call" where
  "set_size_call n fd v = (if n = 0 then SetRecvBufferSize fd v else SetSendBufferSize fd v)"

definition size_field :: "nat \<Rightarrow> transceiver \<Rightarrow> int" where
  "size_field n t = (if n = 0 then m_rcvSize t else m_sndSize t)"

definition set_size_field :: "nat \<Rightarrow> int \<Rightarrow> transceiver \<Rightarrow> transceiver" where
  "set_size_field n v t = (if n = 0 then t\<lparr>m_rcvSize := v\<rparr> else t\<lparr>m_sndSize := v\<rparr>)"

subsection \<open>Concrete objects and worlds\<close>

definition ex_addr :: sockaddr_storage where
  "ex_addr = \<lparr>ss_family = AF_INET, s_addr = 2130706433, s_port = 10000\<rparr>"

definition ex_peer :: sockaddr_storage where
  "ex_peer = \<lparr>ss_family = AF_INET, s_addr = 2130706433, s_port = 40000\<rparr>"

definition ok_reply :: os_reply where
  "ok_reply =
     \<lparr>ret = 1, interrupted = False, wouldBlock = False, recvTruncated = False,
      getSocketErrno = 0, payload = [], address = ex_peer, thrown = None\<rparr>"

definition failed_reply :: "int \<Rightarrow> os_reply" where
  "failed_reply e = ok_reply\<lparr>ret := SOCKET_ERROR, getSocketErrno := e\<rparr>"

definition would_block_reply :: os_reply where
  "would_block_reply = (failed_reply 11)\<lparr>wouldBlock := True\<rparr>"

definition interrupted_reply :: os_reply where
  "interrupted_reply = (failed_reply 4)\<lparr>interrupted := True\<rparr>"

definition expired_reply :: os_reply where
  "expired_reply = ok_reply\<lparr>ret := 0\<rparr>"

definition returned :: "int \<Rightarrow> os_reply" where
  "returned n = ok_reply\<lparr>ret := n\<rparr>"

definition script :: "os_reply list \<Rightarrow> nat \<Rightarrow> os_reply" where
  "script rs k = (if k < length rs then rs ! k else ok_reply)"

definition fresh :: "(nat \<Rightarrow> os_reply) \<Rightarrow> world" where
  "fresh f = \<lparr>replies = f, calls = [], logged = [], opened = []\<rparr>"

definition ex_transceiver :: transceiver where
  "ex_transceiver =
     \<lparr>m_traceLevels = 0, m_stats = False, m_incoming = False, m_addr = ex_addr,
      m_fd = 3, m_mcastServer = False, m_connect = False, m_warn = False,
      m_shutdownReadWrite = False, m_rcvSize = 8192, m_sndSize = 8192\<rparr>"

definition ex_buffer :: buffer where
  "ex_buffer = \<lparr>buf_b = [1, 2, 3], buf_i = 0\<rparr>"

text \<open>A send buffer that is always full although the wait reports it writable.\<close>

definition busy :: "nat \<Rightarrow> os_reply" where
  "busy k = (if even k then would_block_reply else ok_reply)"

text \<open>A datagram of five bytes.\<close>

definition five_bytes :: os_reply where
  "five_bytes = ok_reply\<lparr>ret := 5, payload := [11, 12, 13, 14, 15]\<rparr>"

text \<open>A payload of \<open>2^31\<close> bytes.\<close>

definition huge_payload :: "byte list" where
  "huge_payload = replicate (2 ^ 31) 0"

definition large_buffer :: buffer where
  "large_buffer = \<lparr>buf_b = replicate 9000 0, buf_i = 0\<rparr>"

definition datagram_reply :: os_reply where
  "datagram_reply = ok_reply\<lparr>ret := 2, payload := [7, 9]\<rparr>"

definition ex_instance :: InstancePtr where
  "ex_instance = \<lparr>traceLevels = 0, stats = False, properties = (\<lambda>key. None)\<rparr>"

text \<open>Worlds in which a constructor fails after the socket was created: \<^verbatim>\<open>doBind\<close> throws
  (the address is in use), \<^verbatim>\<open>doConnect\<close> throws (the network is unreachable).\<close>

definition bind_fails :: "nat \<Rightarrow> os_reply" where
  "bind_fails =
     script [ok_reply\<lparr>address := ex_addr\<rparr>, returned 7, returned 8192, returned 8192,
             ok_reply, ok_reply, ok_reply\<lparr>thrown := Some (SocketException 98)\<rparr>]"

definition connect_fails :: "nat \<Rightarrow> os_reply" where
  "connect_fails =
     script [returned 7, returned 8192, returned 8192, ok_reply,
             ok_reply\<lparr>thrown := Some (ConnectFailedException 101)\<rparr>]"

section \<open>Properties\<close>

subsection \<open>The world\<close>

lemma os_call_eq: "os_call c w = (reply w, called c w)"
  by (simp add: os_call_def reply_def called_def)

lemma called_simps [simp]:
  "calls (called c w) = calls w @ [c]"
  "replies (called c w) = replies w"
  "logged (called c w) = logged w"
  "opened (called c w) = opened w"
  by (simp_all add: called_def)

lemma put_simps [simp]:
  "calls (put m w) = calls w"
  "replies (put m w) = replies w"
  "opened (put m w) = opened w"
  "calls (put_if c m w) = calls w"
  "replies (put_if c m w) = replies w"
  "opened (put_if c m w) = opened w"
  by (simp_all add: put_if_def put_def)

lemma reply_put [simp]:
  "reply (put m w) = reply w"
  "reply (put_if c m w) = reply w"
  by (simp_all add: reply_def)

lemma reply_called [simp]: "reply (called c w) = replies w (Suc (length (calls w)))"
  by (simp add: reply_def)

lemma reply_fresh [simp]: "reply (fresh f) = f 0"
  by (simp add: reply_def fresh_def)

lemma fresh_simps [simp]:
  "calls (fresh f) = []" "replies (fresh f) = f" "logged (fresh f) = []" "opened (fresh f) = []"
  by (simp_all add: fresh_def)

lemma forget_simps [simp]:
  "calls (forget s w) = calls w"
  "replies (forget s w) = replies w"
  "reply (forget s w) = reply w"
  "forget None w = w"
  by (simp_all add: forget_def reply_def split: option.splits)

lemma effect_simps [simp]:
  "calls (effect c r w) = calls w"
  "replies (effect c r w) = replies w"
  "reply (effect c r w) = reply w"
  by (simp_all add: effect_def reply_def split: call.splits)

lemma helper_eq:
  "helper c w =
    (case thrown (reply w) of
       Some e \<Rightarrow> (Inl e, forget (socket_of c) (called c w))
     | None \<Rightarrow> (Inr (reply w), effect c (reply w) (called c w)))"
  by (simp add: helper_def os_call_eq)

lemma script_simps [simp]:
  "script rs 0 = (case rs of [] \<Rightarrow> ok_reply | r # _ \<Rightarrow> r)"
  "script (r # rs) (Suc k) = script rs k"
  "script [] k = ok_reply"
  by (simp_all add: script_def split: list.splits)

lemma static_cast_int_small: "n < 2 ^ 31 \<Longrightarrow> static_cast_int n = int n"
  by (simp add: static_cast_int_def Let_def)

lemma sub_int_small: "- (2 ^ 31) \<le> a - b \<Longrightarrow> a - b < 2 ^ 31 \<Longrightarrow> sub_int a b = a - b"
proof -
  assume a: "- (2 ^ 31) \<le> a - b" "a - b < 2 ^ 31"
  show ?thesis
  proof (cases "0 \<le> a - b")
    case True
    with a have "(a - b) mod 2 ^ 32 = a - b" by simp
    with a show ?thesis by (simp add: sub_int_def Let_def)
  next
    case False
    define x where "x = a - b"
    from a False have x: "- (2 ^ 31) \<le> x" "x < 0" by (simp_all add: x_def)
    have "x mod 2 ^ 32 = (x + 2 ^ 32) mod 2 ^ 32" by (simp only: mod_add_self2)
    also from x have "\<dots> = x + 2 ^ 32" by (intro mod_pos_pos_trivial) simp_all
    finally have "x mod 2 ^ 32 = x + 2 ^ 32" .
    with x show ?thesis by (simp add: sub_int_def Let_def x_def [symmetric])
  qed
qed

lemma length_resize [simp]: "length (resize n xs) = n"
  by (simp add: resize_def)

lemma length_stored [simp]: "length (stored d xs) = length xs"
  by (simp add: stored_def)

subsection \<open>One round of the loop of write\<close>

lemma write_loop_Repeat:
  "write_loop p Repeat t buf timeout w =
    (if m_fd t = INVALID_SOCKET then Some (Inl AssertionFailed, buf, w)
     else
       (let r = reply w; w1 = called (Send (m_fd t) (buf_b buf)) w in
        if ret r = SOCKET_ERROR then
          (if interrupted r then write_loop p Repeat t buf timeout w1
           else if wouldBlock r then write_loop p RepeatSelect t buf timeout w1
           else Some (Inl (Throw (SocketException (getSocketErrno r))), buf, w1))
        else
          (let w2 = put_if (m_traceLevels t \<ge> 3) (Trace ''sent bytes via udp'') w1;
               w3 = put_if (m_stats t) (BytesSent type (ret r)) w2
           in if ret r \<noteq> int (length (buf_b buf)) then Some (Inl AssertionFailed, buf, w3)
              else Some (Inr True, buf\<lparr>buf_i := length (buf_b buf)\<rparr>, w3))))"
  by (subst write_loop.simps) (simp add: os_call_eq Let_def)

lemma write_loop_RepeatSelect:
  "write_loop p RepeatSelect t buf timeout w =
    (if timeout = 0 then Some (Inr False, buf, w)
     else if m_fd t = INVALID_SOCKET then Some (Inl AssertionFailed, buf, w)
     else
       (let r = reply w; w1 = called (wait_call p (m_fd t) timeout) w in
        if ret r = SOCKET_ERROR then
          (if interrupted r then write_loop p RepeatSelect t buf timeout w1
           else Some (Inl (Throw (SocketException (getSocketErrno r))), buf, w1))
        else if ret r = 0 then Some (Inl (ThrowNew TimeoutException), buf, w1)
        else write_loop p Repeat t buf timeout w1))"
  by (subst write_loop.simps) (simp add: os_call_eq Let_def)

lemma write_udp_loop:
  "buf_i buf = 0 \<Longrightarrow> \<not> send_ceiling t < static_cast_int (length (buf_b buf)) \<Longrightarrow>
   write_udp p t buf timeout w = write_loop p Repeat t buf timeout w"
  by (simp add: write_udp_def send_ceiling_def Let_def)

lemmas ex_defs =
  ex_transceiver_def ex_buffer_def ex_addr_def ex_peer_def ok_reply_def failed_reply_def
  would_block_reply_def interrupted_reply_def expired_reply_def returned_def
  INVALID_SOCKET_def SOCKET_ERROR_def maxPacketSize_def udpOverhead_def
  send_ceiling_def recv_ceiling_def sub_int_def

subsection \<open>write: the size limit and the timeout\<close>

text \<open>
  C2. A write with a non-zero timeout whose send would block and whose wait returns 0
  does not throw a \<^verbatim>\<open>TimeoutException\<close>: the statement is \<^verbatim>\<open>throw new\<close>, so what reaches
  the caller is a pointer to one, which no handler for \<^verbatim>\<open>TimeoutException\<close> (or for any
  exception class of Ice) catches. Here on a socket whose send would block, with a
  timeout of 100 ms that expires.
\<close>

theorem write_timeout_is_thrown_as_pointer:
  "write_udp OtherUnix ex_transceiver ex_buffer 100
     (fresh (script [would_block_reply, expired_reply])) =
   Some (Inl (ThrowNew TimeoutException), ex_buffer,
         called (Poll 3 POLLOUT 100)
           (called (Send 3 [1, 2, 3]) (fresh (script [would_block_reply, expired_reply]))))"
  by (simp add: write_udp_loop write_loop_Repeat write_loop_RepeatSelect static_cast_int_def
      wait_call_def WIN32_def Let_def ex_defs)

text \<open>
  C4. A payload whose length exceeds \<open>min(65507, sendBufferSize - 28)\<close> is to be refused
  with \<^verbatim>\<open>DatagramLimitException\<close> before any call. For a payload of \<open>2^31\<close> bytes the code
  does not do that: the check at the head of \<^verbatim>\<open>write\<close> compares the ceiling with
  \<^verbatim>\<open>static_cast<int>(buf.b.size())\<close>, which is negative there, so the check passes, the
  payload is handed to \<^verbatim>\<open>send\<close>, and what the caller gets is the failure of \<^verbatim>\<open>send\<close>, a
  \<^verbatim>\<open>SocketException\<close>. Here with a send buffer of 8192 bytes, a ceiling of 8164.
\<close>

theorem write_size_limit_missed:
  "send_ceiling ex_transceiver = 8164 \<and> 8164 < int (length huge_payload) \<and>
   static_cast_int (length huge_payload) = - (2 ^ 31) \<and>
   write_udp OtherUnix ex_transceiver \<lparr>buf_b = huge_payload, buf_i = 0\<rparr> 0
     (fresh (script [failed_reply 90])) =
   Some (Inl (Throw (SocketException 90)), \<lparr>buf_b = huge_payload, buf_i = 0\<rparr>,
         called (Send 3 huge_payload) (fresh (script [failed_reply 90])))"
proof -
  have "length huge_payload = 2 ^ 31"
    by (simp add: huge_payload_def)
  then show ?thesis
    by (simp add: write_udp_loop write_loop_Repeat static_cast_int_def Let_def ex_defs)
qed

subsection \<open>One round of the loop of read\<close>

lemma receive_failed:
  "m_fd t \<noteq> INVALID_SOCKET \<Longrightarrow> ret (reply w) = SOCKET_ERROR \<Longrightarrow>
   receive packetSize t buf w = (Inr (reply w), t, buf, called (recv_call packetSize t) w)"
  by (simp add: receive_def os_call_eq recv_call_def)

lemma receive_recv:
  "m_fd t \<noteq> INVALID_SOCKET \<Longrightarrow> ret (reply w) \<noteq> SOCKET_ERROR \<Longrightarrow> \<not> m_connect t \<Longrightarrow>
   receive packetSize t buf w =
     (Inr (reply w), t, buf\<lparr>buf_b := stored (payload (reply w)) (buf_b buf)\<rparr>,
      called (Recv (m_fd t) packetSize) w)"
  by (simp add: receive_def os_call_eq)

lemma receive_recvfrom:
  "m_fd t \<noteq> INVALID_SOCKET \<Longrightarrow> ret (reply w) \<noteq> SOCKET_ERROR \<Longrightarrow> m_connect t \<Longrightarrow>
   receive packetSize t buf w =
     (let w2 = called (DoConnect (m_fd t) (address (reply w)) (- 1))
                 (called (RecvFrom (m_fd t) packetSize) w);
          rc = replies w (Suc (length (calls w)));
          buf1 = buf\<lparr>buf_b := stored (payload (reply w)) (buf_b buf)\<rparr>
      in case thrown rc of
           Some e \<Rightarrow> (Inl (Throw e), t, buf1, forget (Some (m_fd t)) w2)
         | None \<Rightarrow> (Inr (reply w), t\<lparr>m_connect := False\<rparr>, buf1,
                     put_if (m_traceLevels t \<ge> 1) (Trace ''connected udp socket'') w2))"
  by (simp add: receive_def os_call_eq helper_eq Let_def socket_of_def effect_def
      split: option.splits)

lemma read_loop_shutdown:
  "m_shutdownReadWrite t \<Longrightarrow>
   read_loop p Repeat packetSize t buf timeout w =
     Some (Inl (Throw ConnectionLostException), t, buf, w)"
  by (subst read_loop.simps) simp

lemma read_loop_invalid:
  "\<not> m_shutdownReadWrite t \<Longrightarrow> m_fd t = INVALID_SOCKET \<Longrightarrow>
   read_loop p Repeat packetSize t buf timeout w = Some (Inl AssertionFailed, t, buf, w)"
  by (subst read_loop.simps) (simp add: receive_def)

lemma read_loop_failed:
  assumes "\<not> m_shutdownReadWrite t" "m_fd t \<noteq> INVALID_SOCKET" "ret (reply w) = SOCKET_ERROR"
  shows "read_loop p Repeat packetSize t buf timeout w =
     (let r = reply w; w1 = called (recv_call packetSize t) w in
      if interrupted r then read_loop p Repeat packetSize t buf timeout w1
      else if wouldBlock r then
        (if timeout = 0 then Some (Inr False, t, buf, w1)
         else read_loop p RepeatSelect packetSize t buf timeout w1)
      else if recvTruncated r then
        Some (Inl (Throw DatagramLimitException), t, buf,
              put_if (m_warn t) (WarnDatagramLimit packetSize) w1)
      else Some (Inl (Throw (SocketException (getSocketErrno r))), t, buf, w1))"
  using assms by (subst read_loop.simps) (simp add: receive_failed Let_def)

lemma read_loop_received:
  assumes "\<not> m_shutdownReadWrite t" "m_fd t \<noteq> INVALID_SOCKET" "ret (reply w) \<noteq> SOCKET_ERROR"
  shows "read_loop p Repeat packetSize t buf timeout w =
     (let r = reply w;
          buf1 = buf\<lparr>buf_b := stored (payload r) (buf_b buf)\<rparr>;
          buf2 = buf1\<lparr>buf_b := resize (nat (ret r)) (buf_b buf1), buf_i := nat (ret r)\<rparr>;
          done = (\<lambda>w1. put_if (m_stats t) (BytesReceived type (ret r))
                    (put_if (m_traceLevels t \<ge> 3) (Trace ''received bytes via udp'') w1))
      in if m_connect t then
           (let w2 = called (DoConnect (m_fd t) (address r) (- 1))
                       (called (RecvFrom (m_fd t) packetSize) w);
                rc = replies w (Suc (length (calls w)))
            in case thrown rc of
                 Some e \<Rightarrow> Some (Inl (Throw e), t, buf1, forget (Some (m_fd t)) w2)
               | None \<Rightarrow>
                   Some (Inr True, t\<lparr>m_connect := False\<rparr>, buf2,
                         done (put_if (m_traceLevels t \<ge> 1) (Trace ''connected udp socket'') w2)))
         else Some (Inr True, t, buf2, done (called (Recv (m_fd t) packetSize) w)))"
  using assms
  by (subst read_loop.simps)
     (cases "m_connect t"; simp add: receive_recv receive_recvfrom Let_def split: option.splits)

lemma read_loop_RepeatSelect:
  "read_loop p RepeatSelect packetSize t buf timeout w =
    (if m_fd t = INVALID_SOCKET then Some (Inl AssertionFailed, t, buf, w)
     else
       (let r = reply w; w1 = called (read_wait_call p (m_fd t)) w in
        if ret r = SOCKET_ERROR then
          (if interrupted r then read_loop p RepeatSelect packetSize t buf timeout w1
           else Some (Inl (Throw (SocketException (getSocketErrno r))), t, buf, w1))
        else if ret r = 0 then Some (Inl (Throw TimeoutException), t, buf, w1)
        else read_loop p Repeat packetSize t buf timeout w1))"
  by (subst read_loop.simps) (simp add: os_call_eq Let_def)

lemma read_udp_loop:
  assumes "buf_i buf = 0" and "\<not> recv_ceiling t < static_cast_int (length (buf_b buf))"
    and "0 \<le> recv_ceiling t"
  shows "read_udp p t buf timeout w =
     read_loop p Repeat (recv_ceiling t) t
       (buf\<lparr>buf_b := resize (nat (recv_ceiling t)) (buf_b buf)\<rparr>) timeout w"
proof -
  have same: "buf\<lparr>buf_b := xs, buf_i := 0\<rparr> = buf\<lparr>buf_b := xs\<rparr>" for xs
    using assms(1) by (cases buf) simp
  show ?thesis
    unfolding read_udp_def recv_ceiling_def [symmetric] Let_def using assms by (simp add: same)
qed

subsection \<open>read: the wait\<close>

text \<open>
  C1. A \<^verbatim>\<open>read\<close> with a timeout above 0 whose receive would block is to wait for
  readability with that timeout. The code does not: the wait that \<^verbatim>\<open>read\<close> makes is
  \<^verbatim>\<open>poll(fd, POLLIN, -1)\<close>, on Windows \<^verbatim>\<open>select\<close> with a null \<^verbatim>\<open>timeval\<close>, whatever the
  timeout is (\<^verbatim>\<open>write\<close> hands its timeout to the wait), so the wait has no bound and does
  not expire. Here a \<^verbatim>\<open>read\<close> with a timeout of 5 ms on a socket with nothing to receive:
  the wait is made without a timeout, and the call returns when a datagram has come,
  however late.
\<close>

theorem read_wait_has_no_timeout:
  "read_udp OtherUnix ex_transceiver ex_buffer 5
     (fresh (script [would_block_reply, ok_reply, datagram_reply])) =
   Some (Inr True, ex_transceiver, \<lparr>buf_b = [7, 9], buf_i = 2\<rparr>,
         called (Recv 3 8164) (called (Poll 3 POLLIN (- 1)) (called (Recv 3 8164)
           (fresh (script [would_block_reply, ok_reply, datagram_reply])))))
   \<and> read_udp Windows ex_transceiver ex_buffer 5
     (fresh (script [would_block_reply, ok_reply, datagram_reply])) =
   Some (Inr True, ex_transceiver, \<lparr>buf_b = [7, 9], buf_i = 2\<rparr>,
         called (Recv 3 8164) (called (Select 3 POLLIN None) (called (Recv 3 8164)
           (fresh (script [would_block_reply, ok_reply, datagram_reply])))))
   \<and> wait_call OtherUnix 3 5 = Poll 3 POLLOUT 5
   \<and> wait_call Windows 3 5 = Select 3 POLLOUT (Some (0, 5000))"
  by (simp add: read_udp_loop read_loop_failed read_loop_received read_loop_RepeatSelect Let_def
      read_wait_call_def wait_call_def recv_call_def static_cast_int_def WIN32_def
      datagram_reply_def put_if_def resize_def stored_def ex_defs)

subsection \<open>What a read leaves behind\<close>

lemma read_post_step:
  assumes "read_post ps w1 t buf y" and "replies w1 = replies w"
    and "length (calls w) \<le> length (calls w1)"
  shows "read_post ps w t buf y"
proof -
  obtain res t' buf' w' where y: "y = (res, t', buf', w')" by (cases y) auto
  have "\<exists>k. length (calls w) \<le> k \<and> k < length (calls w') \<and> is_receive (calls w' ! k)
             \<and> ret (replies w k) \<noteq> SOCKET_ERROR
             \<and> buf_b buf' =
                 resize (nat (ret (replies w k))) (stored (payload (replies w k)) (buf_b buf))"
    if "res = Inr True"
  proof -
    from assms(1) that y obtain k where "length (calls w1) \<le> k \<and> k < length (calls w') \<and> is_receive (calls w' ! k)
             \<and> ret (replies w1 k) \<noteq> SOCKET_ERROR
             \<and> buf_b buf' =
                 resize (nat (ret (replies w1 k))) (stored (payload (replies w1 k)) (buf_b buf))"
      by (auto simp: read_post_def)
    with assms(2,3) have "length (calls w) \<le> k \<and> k < length (calls w') \<and> is_receive (calls w' ! k)
             \<and> ret (replies w k) \<noteq> SOCKET_ERROR
             \<and> buf_b buf' =
                 resize (nat (ret (replies w k))) (stored (payload (replies w k)) (buf_b buf))"
      by simp
    then show ?thesis ..
  qed
  with assms y show ?thesis by (simp add: read_post_def)
qed

lemma unconnected [simp]: "\<not> m_connect t \<Longrightarrow> t\<lparr>m_connect := False\<rparr> = t"
  by (cases t) simp

lemma read_post_failure:
  "res \<noteq> Inr True \<Longrightarrow> replies w' = replies w \<Longrightarrow> length (calls w) \<le> length (calls w') \<Longrightarrow>
   length (buf_b buf') = length (buf_b buf) \<Longrightarrow> read_post ps w t buf (res, t, buf', w')"
  by (simp add: read_post_def)

lemma receive_cases:
  assumes "receive ps t buf w = (x, t1, buf1, w1)"
  shows "replies w1 = replies w \<and> length (calls w) \<le> length (calls w1)
       \<and> length (buf_b buf1) = length (buf_b buf) \<and> (t1 = t \<or> t1 = t\<lparr>m_connect := False\<rparr>)
       \<and> (\<forall>r. x = Inr r \<longrightarrow> r = reply w \<and> length (calls w) < length (calls w1)
              \<and> is_receive (calls w1 ! length (calls w))
              \<and> (ret r = SOCKET_ERROR \<longrightarrow> t1 = t \<and> buf1 = buf)
              \<and> (ret r \<noteq> SOCKET_ERROR \<longrightarrow>
                   buf1 = buf\<lparr>buf_b := stored (payload r) (buf_b buf)\<rparr>))
       \<and> (\<forall>f. x = Inl f \<longrightarrow> t1 = t)
       \<and> (\<forall>r. x = Inr r \<and> ret r \<noteq> SOCKET_ERROR \<longrightarrow> t1 = t\<lparr>m_connect := False\<rparr>
              \<and> (m_connect t \<longrightarrow> calls w1 = calls w @ [RecvFrom (m_fd t) ps,
                    DoConnect (m_fd t) (address (reply w)) (- 1)]))"
  using assms
  by (auto simp: receive_def os_call_eq helper_eq effect_def Let_def put_if_def put_def
      is_receive_def nth_append split: if_splits option.splits)

lemma read_loop_post:
  assumes "read_loop p l ps t buf timeout w = Some y"
  shows "read_post ps w t buf y"
  using assms
proof (induction p l ps t buf timeout w y
    rule: read_loop.raw_induct [rotated, consumes 1, case_names 1])
  case (1 f p l ps t buf timeout w y)
  show ?case
  proof (cases l)
    case Repeat
    show ?thesis
    proof (cases "m_shutdownReadWrite t")
      case True
      with 1(2) Repeat show ?thesis by (auto simp: read_post_def)
    next
      case False
      obtain x t1 buf1 w1 where rc: "receive ps t buf w = (x, t1, buf1, w1)"
        by (cases "receive ps t buf w") auto
      note R = receive_cases [OF rc]
      show ?thesis
      proof (cases x)
        case (Inl fl)
        with 1(2) Repeat False rc R show ?thesis by (auto simp: read_post_def)
      next
        case (Inr r)
        with R have r: "r = reply w" and lt: "length (calls w) < length (calls w1)"
          and isr: "is_receive (calls w1 ! length (calls w))"
          and rw: "replies w1 = replies w" by auto
        show ?thesis
        proof (cases "ret r = SOCKET_ERROR")
          case True
          with R Inr have same: "t1 = t" "buf1 = buf" by auto
          show ?thesis
          proof (cases "interrupted r \<or> (wouldBlock r \<and> timeout \<noteq> 0)")
            case True
            then obtain l' where "f p l' ps t buf timeout w1 = Some y"
              using 1(2) Repeat False rc Inr \<open>ret r = SOCKET_ERROR\<close> same
              by (auto split: if_splits)
            from 1(1) [OF this] rw lt show ?thesis by (auto intro: read_post_step)
          next
            case False
            then show ?thesis
              using 1(2) Repeat \<open>\<not> m_shutdownReadWrite t\<close> rc Inr \<open>ret r = SOCKET_ERROR\<close> same rw lt
              by (auto split: if_splits intro!: read_post_failure)
          qed
        next
          case False
          from R Inr False have b1: "buf_b buf1 = stored (payload r) (buf_b buf)"
            by simp
          define buf' where
            "buf' = buf1\<lparr>buf_b := resize (nat (ret r)) (buf_b buf1), buf_i := nat (ret r)\<rparr>"
          have res: "buf_b buf' = resize (nat (ret r)) (buf_b buf1)" "buf_i buf' = nat (ret r)"
            by (simp_all add: buf'_def)
          obtain w' where y: "y = (Inr True, t1, buf', w')"
            and res': "calls w' = calls w1" "replies w' = replies w1"
            using 1(2) Repeat \<open>\<not> m_shutdownReadWrite t\<close> rc Inr False
            by (auto simp: Let_def buf'_def)
          have ex: "\<exists>k. length (calls w) \<le> k \<and> k < length (calls w1)
              \<and> is_receive (calls w1 ! k) \<and> ret (replies w k) \<noteq> SOCKET_ERROR
              \<and> buf_b buf' =
                  resize (nat (ret (replies w k))) (stored (payload (replies w k)) (buf_b buf))"
            using r lt isr False res(1) b1 by (auto simp: reply_def)
          from R Inr False have "t1 = t\<lparr>m_connect := False\<rparr>"
            and "m_connect t \<longrightarrow> calls w1 = calls w @ [RecvFrom (m_fd t) ps,
                    DoConnect (m_fd t) (address (replies w (length (calls w)))) (- 1)]"
            by (simp_all add: reply_def)
          with res res' ex rw lt y show ?thesis by (simp add: read_post_def)
        qed
      qed
    qed
  next
    case RepeatSelect
    show ?thesis
    proof (cases "m_fd t \<noteq> INVALID_SOCKET \<and> (was_interrupted (reply w) \<or> (ret (reply w) \<noteq> SOCKET_ERROR \<and> ret (reply w) \<noteq> 0))")
      case True
      then obtain l' where "f p l' ps t buf timeout (called (read_wait_call p (m_fd t)) w) = Some y"
        using 1(2) RepeatSelect by (auto simp: os_call_eq was_interrupted_def split: if_splits)
      from 1(1) [OF this] show ?thesis by (auto intro: read_post_step)
    next
      case False
      then show ?thesis using 1(2) RepeatSelect
        by (auto simp: os_call_eq was_interrupted_def split: if_splits intro!: read_post_failure)
    qed
  qed
qed

lemma read_udp_post:
  assumes "read_udp p t buf timeout w = Some (res, t', buf', w')"
  shows "(res \<noteq> Inr True \<longrightarrow> t' = t) \<and> (res = Inr True \<longrightarrow> t' = t\<lparr>m_connect := False\<rparr>)
       \<and> (res = Inr True \<and> m_connect t \<longrightarrow>
           (\<exists>cs. calls w' = cs @ [RecvFrom (m_fd t) (recv_ceiling t),
                     DoConnect (m_fd t) (address (replies w (length cs))) (- 1)]))"
proof (cases "buf_i buf = 0 \<and> \<not> recv_ceiling t < static_cast_int (length (buf_b buf))
    \<and> 0 \<le> recv_ceiling t")
  case True
  with assms have "read_loop p Repeat (recv_ceiling t) t
       (buf\<lparr>buf_b := resize (nat (recv_ceiling t)) (buf_b buf)\<rparr>) timeout w = Some (res, t', buf', w')"
    by (simp add: read_udp_loop)
  from read_loop_post [OF this] show ?thesis by (simp add: read_post_def)
next
  case False
  with assms show ?thesis
    by (auto simp: read_udp_def recv_ceiling_def Let_def split: if_splits)
qed

lemma recv_ceiling_eq:
  "udpOverhead \<le> m_rcvSize t \<Longrightarrow> m_rcvSize t < 2 ^ 31 \<Longrightarrow>
   recv_ceiling t = min 65507 (m_rcvSize t - 28)"
  by (simp add: recv_ceiling_def maxPacketSize_def udpOverhead_def sub_int_small)

text \<open>
  C10. \<^verbatim>\<open>read\<close> changes the buffer of the caller before it attempts a receive. For a call
  that passes the ceiling check (with \<^verbatim>\<open>buf.i\<close> at the start, as asserted, and a receive
  buffer size of at least the 28 bytes of overhead, so that the ceiling
  \<open>min(65507, receiveBufferSize - 28)\<close> is a size): the loop of \<^verbatim>\<open>read\<close>, and so every
  receive, runs on the buffer resized to the ceiling. On every outcome other than success
  (connection lost, timeout, truncation, transport error, "not ready", a failed connect
  to the first sender) the buffer is left with as many bytes as the ceiling, not with its
  original length; only on success is it cut to the length that the receive call returned,
  and it then holds what that call stored into the buffer of the size of the ceiling.
\<close>

theorem read_leaves_buffer_at_ceiling:
  assumes "buf_i buf = 0" and "\<not> recv_ceiling t < static_cast_int (length (buf_b buf))"
    and "udpOverhead \<le> m_rcvSize t" and "m_rcvSize t < 2 ^ 31"
  shows "recv_ceiling t = min 65507 (m_rcvSize t - 28)
       \<and> read_udp p t buf timeout w =
           read_loop p Repeat (recv_ceiling t) t
             (buf\<lparr>buf_b := resize (nat (recv_ceiling t)) (buf_b buf)\<rparr>) timeout w
       \<and> (read_udp p t buf timeout w = Some (res, t', buf', w') \<longrightarrow>
            (res \<noteq> Inr True \<longrightarrow> length (buf_b buf') = nat (min 65507 (m_rcvSize t - 28)))
          \<and> (res = Inr True \<longrightarrow>
               (\<exists>k. length (calls w) \<le> k \<and> k < length (calls w') \<and> is_receive (calls w' ! k)
                  \<and> ret (replies w k) \<noteq> SOCKET_ERROR
                  \<and> buf_b buf' =
                      resize (nat (ret (replies w k)))
                        (stored (payload (replies w k))
                           (resize (nat (min 65507 (m_rcvSize t - 28))) (buf_b buf))))))"
proof -
  have c: "recv_ceiling t = min 65507 (m_rcvSize t - 28)"
    using assms(3,4) by (rule recv_ceiling_eq)
  with assms(3) have c0: "0 \<le> recv_ceiling t"
    by (simp add: udpOverhead_def)
  note loop = read_udp_loop [OF assms(1,2) c0]
  have "(res \<noteq> Inr True \<longrightarrow> length (buf_b buf') = nat (min 65507 (m_rcvSize t - 28)))
          \<and> (res = Inr True \<longrightarrow>
               (\<exists>k. length (calls w) \<le> k \<and> k < length (calls w') \<and> is_receive (calls w' ! k)
                  \<and> ret (replies w k) \<noteq> SOCKET_ERROR
                  \<and> buf_b buf' =
                      resize (nat (ret (replies w k)))
                        (stored (payload (replies w k))
                           (resize (nat (min 65507 (m_rcvSize t - 28))) (buf_b buf)))))"
    if "read_udp p t buf timeout w = Some (res, t', buf', w')"
  proof -
    from that have "read_loop p Repeat (recv_ceiling t) t
       (buf\<lparr>buf_b := resize (nat (recv_ceiling t)) (buf_b buf)\<rparr>) timeout w = Some (res, t', buf', w')"
      by (simp add: loop)
    from read_loop_post [OF this] show ?thesis
      by (simp add: read_post_def c)
  qed
  with c loop show ?thesis by simp
qed

lemma ex_read_refused:
  "read_udp OtherUnix ex_transceiver ex_buffer (- 1) (fresh (script [failed_reply 111])) =
   Some (Inl (Throw (SocketException 111)), ex_transceiver,
         ex_buffer\<lparr>buf_b := resize 8164 [1, 2, 3]\<rparr>,
         called (Recv 3 8164) (fresh (script [failed_reply 111])))"
  by (simp add: read_udp_loop read_loop_failed static_cast_int_def Let_def recv_call_def ex_defs)

lemma ex_read_five:
  "read_udp OtherUnix ex_transceiver ex_buffer (- 1) (fresh (script [five_bytes])) =
   Some (Inr True, ex_transceiver, \<lparr>buf_b = [11, 12, 13, 14, 15], buf_i = 5\<rparr>,
         called (Recv 3 8164) (fresh (script [five_bytes])))"
  by (simp add: read_udp_loop read_loop_received static_cast_int_def Let_def five_bytes_def
      put_if_def resize_def stored_def ex_defs)

theorem read_leaves_buffer_at_ceiling_witness:
  "read_udp OtherUnix ex_transceiver ex_buffer (- 1) (fresh (script [failed_reply 111])) =
   Some (Inl (Throw (SocketException 111)), ex_transceiver,
         ex_buffer\<lparr>buf_b := resize 8164 [1, 2, 3]\<rparr>,
         called (Recv 3 8164) (fresh (script [failed_reply 111])))
   \<and> read_udp OtherUnix ex_transceiver ex_buffer (- 1) (fresh (script [five_bytes])) =
   Some (Inr True, ex_transceiver, \<lparr>buf_b = [11, 12, 13, 14, 15], buf_i = 5\<rparr>,
         called (Recv 3 8164) (fresh (script [five_bytes])))
   \<and> recv_ceiling ex_transceiver = 8164
   \<and> length (buf_b ex_buffer) = 3
   \<and> length (buf_b (ex_buffer\<lparr>buf_b := resize 8164 [1, 2, 3]\<rparr>)) = 8164"
proof -
  have h: "buf_i ex_buffer = 0"
    "\<not> recv_ceiling ex_transceiver < static_cast_int (length (buf_b ex_buffer))"
    "udpOverhead \<le> m_rcvSize ex_transceiver" "m_rcvSize ex_transceiver < 2 ^ 31"
    by (simp_all add: static_cast_int_def Let_def ex_defs)
  from read_leaves_buffer_at_ceiling [OF h, of OtherUnix "- 1" "fresh (script [failed_reply 111])"
      "Inl (Throw (SocketException 111))" ex_transceiver
      "ex_buffer\<lparr>buf_b := resize 8164 [1, 2, 3]\<rparr>"
      "called (Recv 3 8164) (fresh (script [failed_reply 111]))"]
    ex_read_refused ex_read_five
  show ?thesis
    by (simp add: ex_transceiver_def ex_buffer_def)
qed

subsection \<open>Interrupted calls\<close>

lemma called_n_simps [simp]:
  "called_n 0 c w = w"
  "called_n n c (called c w) = called_n (Suc n) c w"
  "called c (called_n n c w) = called_n (Suc n) c w"
  "calls (called_n n c w) = calls w @ replicate n c"
  "replies (called_n n c w) = replies w"
  by (simp_all add: called_n_def called_def replicate_append_same)

lemma write_loop_interrupted:
  "was_interrupted (reply w) \<Longrightarrow> m_fd t \<noteq> INVALID_SOCKET \<Longrightarrow>
   write_loop p Repeat t buf timeout w =
   write_loop p Repeat t buf timeout (called (Send (m_fd t) (buf_b buf)) w)"
  by (subst write_loop_Repeat) (simp add: was_interrupted_def Let_def)

lemma write_wait_interrupted:
  "was_interrupted (reply w) \<Longrightarrow> m_fd t \<noteq> INVALID_SOCKET \<Longrightarrow> timeout \<noteq> 0 \<Longrightarrow>
   write_loop p RepeatSelect t buf timeout w =
   write_loop p RepeatSelect t buf timeout (called (wait_call p (m_fd t) timeout) w)"
  by (subst write_loop_RepeatSelect) (simp add: was_interrupted_def Let_def)

lemma read_loop_interrupted:
  "was_interrupted (reply w) \<Longrightarrow> m_fd t \<noteq> INVALID_SOCKET \<Longrightarrow> \<not> m_shutdownReadWrite t \<Longrightarrow>
   read_loop p Repeat ps t buf timeout w =
   read_loop p Repeat ps t buf timeout (called (recv_call ps t) w)"
  by (subst read_loop_failed) (simp_all add: was_interrupted_def Let_def)

lemma read_wait_interrupted:
  "was_interrupted (reply w) \<Longrightarrow> m_fd t \<noteq> INVALID_SOCKET \<Longrightarrow>
   read_loop p RepeatSelect ps t buf timeout w =
   read_loop p RepeatSelect ps t buf timeout (called (read_wait_call p (m_fd t)) w)"
  by (subst read_loop_RepeatSelect) (simp add: was_interrupted_def Let_def)

lemma write_loop_skip:
  assumes "\<forall>j<n. was_interrupted (replies w (length (calls w) + j))" and "m_fd t \<noteq> INVALID_SOCKET"
  shows "write_loop p Repeat t buf timeout w =
         write_loop p Repeat t buf timeout (called_n n (Send (m_fd t) (buf_b buf)) w)"
  using assms
proof (induction n arbitrary: w)
  case 0
  show ?case by simp
next
  case (Suc n)
  from Suc.prems(1) have "was_interrupted (reply w)" by (auto simp: reply_def)
  then have "write_loop p Repeat t buf timeout w =
      write_loop p Repeat t buf timeout (called (Send (m_fd t) (buf_b buf)) w)"
    using Suc.prems(2) by (rule write_loop_interrupted)
  also have "\<dots> = write_loop p Repeat t buf timeout
      (called_n n (Send (m_fd t) (buf_b buf)) (called (Send (m_fd t) (buf_b buf)) w))"
  proof (rule Suc.IH)
    show "\<forall>j<n. was_interrupted (replies (called (Send (m_fd t) (buf_b buf)) w)
        (length (calls (called (Send (m_fd t) (buf_b buf)) w)) + j))"
      using Suc.prems(1) by (auto dest: spec [where x = "Suc j" for j])
  qed (rule Suc.prems(2))
  finally show ?case by simp
qed

lemma read_loop_skip:
  assumes "\<forall>j<n. was_interrupted (replies w (length (calls w) + j))" and "m_fd t \<noteq> INVALID_SOCKET"
    and "\<not> m_shutdownReadWrite t"
  shows "read_loop p Repeat ps t buf timeout w =
         read_loop p Repeat ps t buf timeout (called_n n (recv_call ps t) w)"
  using assms
proof (induction n arbitrary: w)
  case 0
  show ?case by simp
next
  case (Suc n)
  from Suc.prems(1) have "was_interrupted (reply w)" by (auto simp: reply_def)
  then have "read_loop p Repeat ps t buf timeout w =
      read_loop p Repeat ps t buf timeout (called (recv_call ps t) w)"
    using Suc.prems(2,3) by (rule read_loop_interrupted)
  also have "\<dots> = read_loop p Repeat ps t buf timeout
      (called_n n (recv_call ps t) (called (recv_call ps t) w))"
  proof (rule Suc.IH)
    show "\<forall>j<n. was_interrupted (replies (called (recv_call ps t) w)
        (length (calls (called (recv_call ps t) w)) + j))"
      using Suc.prems(1) by (auto dest: spec [where x = "Suc j" for j])
  qed (rule Suc.prems(2,3))+
  finally show ?case by simp
qed

text \<open>
  C8. For every call with a timeout of 0 in which the socket is not ready (the send, or
  the receive, would block, after any number \<open>n\<close> of interrupted attempts): \<^verbatim>\<open>write\<close>
  returns \<open>false\<close> and has made only \<^verbatim>\<open>send\<close> calls, no wait; \<^verbatim>\<open>read\<close> returns \<open>false\<close>
  and has made only receive calls, no wait; neither raises an error. (The calls respect
  what \<^verbatim>\<open>write\<close> and \<^verbatim>\<open>read\<close> assert and check before the first attempt.)
\<close>

theorem not_ready_returns_false:
  assumes "\<forall>j<n. was_interrupted (replies w (length (calls w) + j))"
    and "would_block (replies w (length (calls w) + n))"
    and "m_fd t \<noteq> INVALID_SOCKET" and "buf_i buf = 0"
  shows "(\<not> send_ceiling t < static_cast_int (length (buf_b buf)) \<longrightarrow>
            write_udp p t buf 0 w =
              Some (Inr False, buf, called_n (Suc n) (Send (m_fd t) (buf_b buf)) w))
       \<and> (\<not> recv_ceiling t < static_cast_int (length (buf_b buf)) \<and> 0 \<le> recv_ceiling t
            \<and> \<not> m_shutdownReadWrite t \<longrightarrow>
            read_udp p t buf 0 w =
              Some (Inr False, t, buf\<lparr>buf_b := resize (nat (recv_ceiling t)) (buf_b buf)\<rparr>,
                    called_n (Suc n) (recv_call (recv_ceiling t) t) w))"
proof (intro conjI impI)
  assume c: "\<not> send_ceiling t < static_cast_int (length (buf_b buf))"
  let ?w = "called_n n (Send (m_fd t) (buf_b buf)) w"
  have wb: "would_block (reply ?w)" using assms(2) by (simp add: reply_def)
  have "write_udp p t buf 0 w = write_loop p Repeat t buf 0 ?w"
    using assms c by (simp add: write_udp_loop write_loop_skip [of n])
  also have "\<dots> = Some (Inr False, buf, called (Send (m_fd t) (buf_b buf)) ?w)"
    using wb assms(3)
    by (simp add: write_loop_Repeat write_loop_RepeatSelect would_block_def Let_def)
  finally show "write_udp p t buf 0 w =
      Some (Inr False, buf, called_n (Suc n) (Send (m_fd t) (buf_b buf)) w)"
    by simp
next
  assume c: "\<not> recv_ceiling t < static_cast_int (length (buf_b buf)) \<and> 0 \<le> recv_ceiling t
            \<and> \<not> m_shutdownReadWrite t"
  let ?b = "buf\<lparr>buf_b := resize (nat (recv_ceiling t)) (buf_b buf)\<rparr>"
  let ?w = "called_n n (recv_call (recv_ceiling t) t) w"
  have wb: "would_block (reply ?w)" using assms(2) by (simp add: reply_def)
  have "read_udp p t buf 0 w = read_loop p Repeat (recv_ceiling t) t ?b 0 ?w"
    using assms c by (simp add: read_udp_loop read_loop_skip [of n])
  also have "\<dots> = Some (Inr False, t, ?b, called (recv_call (recv_ceiling t) t) ?w)"
    using wb assms(3) c
    by (simp add: read_loop_failed would_block_def Let_def)
  finally show "read_udp p t buf 0 w =
      Some (Inr False, t, ?b, called_n (Suc n) (recv_call (recv_ceiling t) t) w)"
    by simp
qed

theorem not_ready_returns_false_witness:
  "was_interrupted (script [interrupted_reply, would_block_reply] 0)
   \<and> would_block (script [interrupted_reply, would_block_reply] 1)
   \<and> write_udp OtherUnix ex_transceiver ex_buffer 0
        (fresh (script [interrupted_reply, would_block_reply])) =
      Some (Inr False, ex_buffer,
            called_n (Suc 1) (Send 3 [1, 2, 3]) (fresh (script [interrupted_reply, would_block_reply])))
   \<and> read_udp OtherUnix ex_transceiver ex_buffer 0
        (fresh (script [interrupted_reply, would_block_reply])) =
      Some (Inr False, ex_transceiver, ex_buffer\<lparr>buf_b := resize 8164 [1, 2, 3]\<rparr>,
            called_n (Suc 1) (Recv 3 8164) (fresh (script [interrupted_reply, would_block_reply])))"
proof -
  let ?w = "fresh (script [interrupted_reply, would_block_reply])"
  have h1: "\<forall>j<1. was_interrupted (replies ?w (length (calls ?w) + j))"
    by (simp add: was_interrupted_def ex_defs)
  have h2: "would_block (replies ?w (length (calls ?w) + 1))"
    by (simp add: would_block_def ex_defs)
  have h3: "m_fd ex_transceiver \<noteq> INVALID_SOCKET" "buf_i ex_buffer = 0"
    by (simp_all add: ex_defs)
  from not_ready_returns_false [OF h1 h2 h3, of OtherUnix] h1 h2 show ?thesis
    by (simp add: static_cast_int_def recv_call_def ex_defs)
qed

subsection \<open>Termination of the loops\<close>

lemma write_loop_returns:
  assumes "\<forall>k\<ge>N. \<not> retryable (replies w k)"
  shows "\<exists>y. write_loop p l t buf timeout w = Some y"
  using assms
proof (induction "2 * (N - length (calls w)) + (if l = RepeatSelect then 1 else 0 :: nat)"
    arbitrary: w l rule: less_induct)
  case less
  have later: "\<exists>y. write_loop p l' t buf timeout (called c w) = Some y"
    if "length (calls w) < N \<or> (l = RepeatSelect \<and> l' = Repeat)" for l' c
    by (rule less.hyps) (use that less.prems in \<open>auto split: if_splits\<close>)
  have early: "length (calls w) < N" if "retryable (reply w)"
    using that less.prems by (auto simp: reply_def not_le [symmetric])
  show ?case
  proof (cases l)
    case Repeat
    show ?thesis
      unfolding Repeat using later early
      by (subst write_loop_Repeat)
         (auto simp: Let_def retryable_def was_interrupted_def would_block_def)
  next
    case RepeatSelect
    show ?thesis
      unfolding RepeatSelect using later early RepeatSelect
      by (subst write_loop_RepeatSelect)
         (auto simp: Let_def retryable_def was_interrupted_def would_block_def)
  qed
qed

lemma read_loop_returns:
  assumes "\<forall>k\<ge>N. \<not> retryable (replies w k)"
  shows "\<exists>y. read_loop p l ps t buf timeout w = Some y"
  using assms
proof (induction "2 * (N - length (calls w)) + (if l = RepeatSelect then 1 else 0 :: nat)"
    arbitrary: w l rule: less_induct)
  case less
  have later: "\<exists>y. read_loop p l' ps t buf timeout (called c w) = Some y"
    if "length (calls w) < N \<or> (l = RepeatSelect \<and> l' = Repeat)" for l' c
    by (rule less.hyps) (use that less.prems in \<open>auto split: if_splits\<close>)
  have early: "length (calls w) < N" if "retryable (reply w)"
    using that less.prems by (auto simp: reply_def not_le [symmetric])
  show ?case
  proof (cases l)
    case Repeat
    consider "m_shutdownReadWrite t" | "\<not> m_shutdownReadWrite t" "m_fd t = INVALID_SOCKET"
      | "\<not> m_shutdownReadWrite t" "m_fd t \<noteq> INVALID_SOCKET" "ret (reply w) \<noteq> SOCKET_ERROR"
      | "\<not> m_shutdownReadWrite t" "m_fd t \<noteq> INVALID_SOCKET" "ret (reply w) = SOCKET_ERROR"
      by blast
    then show ?thesis
    proof cases
      case 1
      then show ?thesis unfolding Repeat by (simp add: read_loop_shutdown)
    next
      case 2
      then show ?thesis unfolding Repeat by (simp add: read_loop_invalid)
    next
      case 3
      then show ?thesis unfolding Repeat
        by (simp add: read_loop_received Let_def split: option.splits)
    next
      case 4
      then show ?thesis unfolding Repeat using later early
        by (subst read_loop_failed)
           (auto simp: Let_def retryable_def was_interrupted_def would_block_def)
    qed
  next
    case RepeatSelect
    show ?thesis
      unfolding RepeatSelect using later early RepeatSelect
      by (subst read_loop_RepeatSelect)
         (auto simp: Let_def retryable_def was_interrupted_def would_block_def)
  qed
qed

lemma write_udp_returns:
  "\<forall>k\<ge>N. \<not> retryable (replies w k) \<Longrightarrow> \<exists>y. write_udp p t buf timeout w = Some y"
  using write_loop_returns [of N w p Repeat t buf timeout]
  by (simp add: write_udp_def Let_def)

lemma read_udp_returns:
  "\<forall>k\<ge>N. \<not> retryable (replies w k) \<Longrightarrow> \<exists>y. read_udp p t buf timeout w = Some y"
  using read_loop_returns [of N w p Repeat]
  by (simp add: read_udp_def Let_def)

lemma write_loop_busy:
  assumes "write_loop p l t buf timeout w = Some y"
  shows "\<not> (replies w = busy \<and> m_fd t \<noteq> INVALID_SOCKET \<and> timeout \<noteq> 0 \<and>
            (l = Repeat \<longleftrightarrow> even (length (calls w))))"
  using assms
proof (induction p l t buf timeout w y
    rule: write_loop.raw_induct [rotated, consumes 1, case_names 1])
  case (1 f p l t buf timeout w y)
  show ?case
    using 1 by (cases l)
      (fastforce simp: os_call_def busy_def ex_defs split: if_splits)+
qed

text \<open>
  C9 (amended). In \<^verbatim>\<open>write\<close> and in \<^verbatim>\<open>read\<close>, a call that was interrupted, be it
  \<^verbatim>\<open>send\<close>, \<^verbatim>\<open>recv\<close> or the wait, leads to the same step being taken again: the outcome
  of the operation is the outcome of the retry, so the interruption itself is never what
  the caller sees. If from some call on the operating system reports neither an
  interruption nor "would block" (and every call returns), \<^verbatim>\<open>write\<close> and \<^verbatim>\<open>read\<close> return.
\<close>

theorem interrupted_calls_are_retried:
  "(was_interrupted (reply w) \<and> m_fd t \<noteq> INVALID_SOCKET \<longrightarrow>
      write_loop p Repeat t buf timeout w =
        write_loop p Repeat t buf timeout (called (Send (m_fd t) (buf_b buf)) w)
    \<and> (timeout \<noteq> 0 \<longrightarrow>
        write_loop p RepeatSelect t buf timeout w =
          write_loop p RepeatSelect t buf timeout (called (wait_call p (m_fd t) timeout) w))
    \<and> (\<not> m_shutdownReadWrite t \<longrightarrow>
        read_loop p Repeat ps t buf timeout w =
          read_loop p Repeat ps t buf timeout (called (recv_call ps t) w))
    \<and> read_loop p RepeatSelect ps t buf timeout w =
        read_loop p RepeatSelect ps t buf timeout (called (read_wait_call p (m_fd t)) w))
   \<and> ((\<exists>N. \<forall>k\<ge>N. \<not> was_interrupted (replies w k) \<and> \<not> would_block (replies w k)) \<longrightarrow>
        (\<exists>y. write_udp p t buf timeout w = Some y) \<and> (\<exists>y. read_udp p t buf timeout w = Some y))"
proof -
  have "(\<exists>y. write_udp p t buf timeout w = Some y) \<and> (\<exists>y. read_udp p t buf timeout w = Some y)"
    if "\<forall>k\<ge>N. \<not> was_interrupted (replies w k) \<and> \<not> would_block (replies w k)" for N
  proof -
    from that have "\<forall>k\<ge>N. \<not> retryable (replies w k)" by (simp add: retryable_def)
    then show ?thesis by (blast intro: write_udp_returns read_udp_returns)
  qed
  moreover have "write_loop p Repeat t buf timeout w =
        write_loop p Repeat t buf timeout (called (Send (m_fd t) (buf_b buf)) w)
    \<and> (timeout \<noteq> 0 \<longrightarrow>
        write_loop p RepeatSelect t buf timeout w =
          write_loop p RepeatSelect t buf timeout (called (wait_call p (m_fd t) timeout) w))
    \<and> (\<not> m_shutdownReadWrite t \<longrightarrow>
        read_loop p Repeat ps t buf timeout w =
          read_loop p Repeat ps t buf timeout (called (recv_call ps t) w))
    \<and> read_loop p RepeatSelect ps t buf timeout w =
        read_loop p RepeatSelect ps t buf timeout (called (read_wait_call p (m_fd t)) w)"
    if "was_interrupted (reply w)" and "m_fd t \<noteq> INVALID_SOCKET"
    using that
    by (intro conjI impI write_loop_interrupted write_wait_interrupted read_loop_interrupted
        read_wait_interrupted)
  ultimately show ?thesis by blast
qed

theorem interrupted_calls_are_retried_witness:
  "was_interrupted (reply (fresh (script [interrupted_reply, returned 3])))
   \<and> write_loop OtherUnix Repeat ex_transceiver ex_buffer 5
        (fresh (script [interrupted_reply, returned 3])) =
      write_loop OtherUnix Repeat ex_transceiver ex_buffer 5
        (called (Send 3 [1, 2, 3]) (fresh (script [interrupted_reply, returned 3])))
   \<and> (\<exists>y. write_udp OtherUnix ex_transceiver ex_buffer 5
              (fresh (script [interrupted_reply, returned 3])) = Some y)
   \<and> (\<exists>y. read_udp OtherUnix ex_transceiver ex_buffer 5
              (fresh (script [interrupted_reply, returned 3])) = Some y)"
proof -
  let ?w = "fresh (script [interrupted_reply, returned 3])"
  have h1: "was_interrupted (reply ?w)" by (simp add: was_interrupted_def ex_defs)
  have h2: "\<forall>k\<ge>2. \<not> was_interrupted (script [interrupted_reply, returned 3] k)
            \<and> \<not> would_block (script [interrupted_reply, returned 3] k)"
    by (simp add: script_def was_interrupted_def would_block_def ex_defs)
  then have h3: "\<exists>N. \<forall>k\<ge>N. \<not> was_interrupted (replies ?w k) \<and> \<not> would_block (replies ?w k)"
    by (intro exI [of _ 2]) simp
  have h4: "m_fd ex_transceiver \<noteq> INVALID_SOCKET" by (simp add: ex_defs)
  from interrupted_calls_are_retried [of ?w ex_transceiver OtherUnix ex_buffer 5 0] h1 h3 h4
  show ?thesis by (simp add: ex_defs)
qed

text \<open>
  The claim as stated asks only that interruptions be finitely many. That is not enough:
  on a socket whose send always would block and whose wait always reports it writable,
  with no interruption at all, \<^verbatim>\<open>write\<close> never returns.
\<close>

theorem interrupted_calls_are_retried_counterexample:
  "(\<forall>k. \<not> was_interrupted (busy k)) \<and>
   write_udp OtherUnix ex_transceiver ex_buffer (- 1) (fresh busy) = None"
proof -
  have "write_loop OtherUnix Repeat ex_transceiver ex_buffer (- 1) (fresh busy) = None"
    using write_loop_busy [of OtherUnix Repeat ex_transceiver ex_buffer "- 1" "fresh busy"]
    by (cases "write_loop OtherUnix Repeat ex_transceiver ex_buffer (- 1) (fresh busy)")
       (simp_all add: ex_defs)
  then show ?thesis
    by (simp add: write_udp_loop static_cast_int_def was_interrupted_def busy_def ex_defs)
qed

subsection \<open>The connect to the first sender\<close>

lemma keepsD: "keeps g s \<Longrightarrow> g (fst (snd (s t w))) = g t"
  by (simp add: keeps_def)

lemma on_return_keeps:
  "(\<And>r w1. g (fst (snd (k r w1))) = g t) \<Longrightarrow> g (fst (snd (on_return x t k))) = g t"
  by (auto simp: on_return_def split: prod.splits sum.splits)

lemma keeps_call_stmt [simp]: "keeps g (call_stmt c)"
  by (simp add: keeps_def call_stmt_def on_return_keeps)

lemma keeps_trace_stmt [simp]: "keeps g (trace_stmt level msg)"
  by (simp add: keeps_def trace_stmt_def)

lemma keeps_when_stmt [simp]: "keeps g s \<Longrightarrow> keeps g (when_stmt c s)"
  by (simp add: keeps_def when_stmt_def)

lemma keeps_seq [simp]: "list_all (keeps g) ss \<Longrightarrow> keeps g (seq ss)"
proof (induction ss)
  case Nil
  show ?case by (simp add: keeps_def)
next
  case (Cons s ss)
  then have s: "keeps g s" and ss: "keeps g (seq ss)" by simp_all
  show ?case
    unfolding keeps_def
  proof (intro allI)
    fix t w
    obtain f t1 w1 where st: "s t w = (f, t1, w1)" by (cases "s t w") auto
    with keepsD [OF s, of t w] have "g t1 = g t" by simp
    with st keepsD [OF ss, of t1 w1] show "g (fst (snd (seq (s # ss) t w))) = g t"
      by (cases f) simp_all
  qed
qed

lemma keeps_connect_createSocket [simp]: "keeps m_connect createSocket"
  by (simp add: keeps_def createSocket_def on_return_keeps)

lemma keeps_connect_getAddressForServer [simp]: "keeps m_connect (getAddressForServer host port)"
  by (simp add: keeps_def getAddressForServer_def on_return_keeps)

lemma keeps_connect_setBufSize_round [simp]: "keeps m_connect (setBufSize_round inst n)"
  by (simp add: keeps_def setBufSize_round_def Let_def on_return_keeps)

lemma keeps_connect_setBufSize [simp]: "keeps m_connect (setBufSize inst)"
proof -
  have "keeps m_connect (seq [setBufSize_round inst 0, setBufSize_round inst 1])" by simp
  then show ?thesis by (simp add: keeps_def setBufSize_def)
qed

lemma keeps_connect_bind_multicast [simp]: "keeps m_connect (bind_multicast p)"
proof -
  have "m_connect (fst (snd (call_stmt c t w))) = m_connect t" for c t w
    using keeps_call_stmt [of m_connect c] by (simp add: keeps_def)
  then show ?thesis
    by (simp add: keeps_def bind_multicast_def on_return_keeps)
qed

lemma keeps_connect_mcastServer [simp]:
  "keeps m_connect (assign_stmt (\<lambda>t. t\<lparr>m_mcastServer := True\<rparr>))"
  by (simp add: keeps_def assign_stmt_def)

lemma catch_all_connect [simp]: "m_connect (fst (snd (catch_all x))) = m_connect (fst (snd x))"
  by (auto simp: catch_all_def split: prod.splits option.splits failure.splits)

lemma bind_connect:
  "m_connect (fst (snd (UdpTransceiver_bind p inst host port mcastInterface c raw w))) = c"
  unfolding UdpTransceiver_bind_def catch_all_connect
  by (subst keepsD [OF keeps_seq]) simp_all

lemma close_connect: "m_connect (fst (snd (close t w))) = m_connect t"
  by (simp add: close_def Let_def on_return_keeps)

lemma shutdownReadWrite_connect: "m_connect (fst (snd (shutdownReadWrite p t w))) = m_connect t"
  by (simp add: shutdownReadWrite_def Let_def on_return_keeps)

lemma shutdownReadWrite_flag: "m_shutdownReadWrite (fst (snd (shutdownReadWrite p t w)))"
proof -
  have "m_shutdownReadWrite (fst (snd (shutdownReadWrite p t w))) =
        m_shutdownReadWrite (t\<lparr>m_shutdownReadWrite := True\<rparr>)"
    by (simp add: shutdownReadWrite_def Let_def on_return_keeps)
  then show ?thesis by simp
qed

text \<open>
  C5. A transceiver constructed for receiving with the connect flag set has \<^verbatim>\<open>_connect\<close>
  set. A \<^verbatim>\<open>read\<close> that does not return \<open>true\<close> leaves \<^verbatim>\<open>_connect\<close> as it was; a \<^verbatim>\<open>read\<close>
  that returns \<open>true\<close> leaves it cleared, and when it was set, the last two calls made are
  the \<^verbatim>\<open>recvfrom\<close> and the connect of the socket to the address that this \<^verbatim>\<open>recvfrom\<close>
  stored. No operation sets \<^verbatim>\<open>_connect\<close> again: \<^verbatim>\<open>read\<close>, \<^verbatim>\<open>close\<close>, \<^verbatim>\<open>shutdownWrite\<close> and
  \<^verbatim>\<open>shutdownReadWrite\<close> leave a cleared flag cleared (\<^verbatim>\<open>write\<close> does not change the object).
\<close>

theorem pending_connect_is_one_way:
  "m_connect (fst (snd (UdpTransceiver_bind p inst host port mcastInterface True raw w0)))
   \<and> (read_udp p t buf timeout w = Some (res, t', buf', w') \<longrightarrow>
        (res \<noteq> Inr True \<longrightarrow> m_connect t' = m_connect t)
      \<and> (res = Inr True \<longrightarrow> \<not> m_connect t')
      \<and> (res = Inr True \<and> m_connect t \<longrightarrow>
           (\<exists>cs. calls w' = cs @ [RecvFrom (m_fd t) (recv_ceiling t),
                     DoConnect (m_fd t) (address (replies w (length cs))) (- 1)]))
      \<and> (\<not> m_connect t \<longrightarrow> \<not> m_connect t'))
   \<and> m_connect (fst (snd (close t w))) = m_connect t
   \<and> m_connect (fst (snd (shutdownWrite t w))) = m_connect t
   \<and> m_connect (fst (snd (shutdownReadWrite p t w))) = m_connect t"
proof -
  have "(res \<noteq> Inr True \<longrightarrow> m_connect t' = m_connect t)
      \<and> (res = Inr True \<longrightarrow> \<not> m_connect t')
      \<and> (res = Inr True \<and> m_connect t \<longrightarrow>
           (\<exists>cs. calls w' = cs @ [RecvFrom (m_fd t) (recv_ceiling t),
                     DoConnect (m_fd t) (address (replies w (length cs))) (- 1)]))
      \<and> (\<not> m_connect t \<longrightarrow> \<not> m_connect t')"
    if "read_udp p t buf timeout w = Some (res, t', buf', w')"
    using read_udp_post [OF that] by (cases "res = Inr True") auto
  then show ?thesis
    by (simp add: bind_connect close_connect shutdownReadWrite_connect shutdownWrite_def)
qed

lemma ex_read_connects:
  "read_udp OtherUnix (ex_transceiver\<lparr>m_connect := True\<rparr>) ex_buffer (- 1)
     (fresh (script [datagram_reply])) =
   Some (Inr True, ex_transceiver, \<lparr>buf_b = [7, 9], buf_i = 2\<rparr>,
         called (DoConnect 3 ex_peer (- 1)) (called (RecvFrom 3 8164) (fresh (script [datagram_reply]))))"
  by (simp add: read_udp_loop read_loop_received static_cast_int_def Let_def datagram_reply_def
      put_if_def resize_def stored_def ex_defs)

theorem pending_connect_is_one_way_witness:
  "read_udp OtherUnix (ex_transceiver\<lparr>m_connect := True\<rparr>) ex_buffer (- 1)
     (fresh (script [datagram_reply])) =
   Some (Inr True, ex_transceiver, \<lparr>buf_b = [7, 9], buf_i = 2\<rparr>,
         called (DoConnect 3 ex_peer (- 1)) (called (RecvFrom 3 8164) (fresh (script [datagram_reply]))))
   \<and> m_connect (ex_transceiver\<lparr>m_connect := True\<rparr>) \<and> \<not> m_connect ex_transceiver"
  using pending_connect_is_one_way [of OtherUnix _ _ _ _ _ _ "ex_transceiver\<lparr>m_connect := True\<rparr>"
      ex_buffer "- 1" "fresh (script [datagram_reply])" "Inr True" ex_transceiver
      "\<lparr>buf_b = [7, 9], buf_i = 2\<rparr>"
      "called (DoConnect 3 ex_peer (- 1)) (called (RecvFrom 3 8164) (fresh (script [datagram_reply])))"]
    ex_read_connects
  by simp

subsection \<open>read after a shutdown\<close>

lemma called_once: "called c w = called_n (Suc 0) c w"
  by (simp add: called_n_def called_def)

lemma read_loop_woken:
  "m_shutdownReadWrite t \<Longrightarrow> m_fd t \<noteq> INVALID_SOCKET \<Longrightarrow>
   ret (reply w) \<noteq> SOCKET_ERROR \<Longrightarrow> ret (reply w) \<noteq> 0 \<Longrightarrow>
   read_loop p RepeatSelect ps t buf timeout w =
     Some (Inl (Throw ConnectionLostException), t, buf, called (read_wait_call p (m_fd t)) w)"
  by (simp add: read_loop_RepeatSelect read_loop_shutdown Let_def)

lemma read_loop_flag:
  assumes "read_loop p l ps t buf timeout w = Some y" and "m_shutdownReadWrite t"
  shows "\<exists>f n. y = (Inl f, t, buf, called_n n (read_wait_call p (m_fd t)) w)"
  using assms
proof (induction p l ps t buf timeout w y
    rule: read_loop.raw_induct [rotated, consumes 1, case_names 1])
  case (1 f p l ps t buf timeout w y)
  let ?c = "read_wait_call p (m_fd t)"
  show ?case
  proof (cases l)
    case Repeat
    with 1(2,3) have "y = (Inl (Throw ConnectionLostException), t, buf, called_n 0 ?c w)"
      by simp
    then show ?thesis by blast
  next
    case RepeatSelect
    show ?thesis
    proof (cases "m_fd t \<noteq> INVALID_SOCKET \<and>
        (was_interrupted (reply w) \<or> (ret (reply w) \<noteq> SOCKET_ERROR \<and> ret (reply w) \<noteq> 0))")
      case True
      then obtain l' where "f p l' ps t buf timeout (called ?c w) = Some y"
        using 1(2) RepeatSelect by (auto simp: os_call_eq was_interrupted_def split: if_splits)
      from 1(1) [OF this 1(3)] obtain fl n
        where "y = (Inl fl, t, buf, called_n n ?c (called ?c w))" by blast
      then have "y = (Inl fl, t, buf, called_n (Suc n) ?c w)" by simp
      then show ?thesis by blast
    next
      case False
      then consider "y = (Inl AssertionFailed, t, buf, called_n 0 ?c w)"
        | fl where "y = (Inl fl, t, buf, called_n (Suc 0) ?c w)"
        using 1(2) RepeatSelect
        by (auto simp: os_call_eq was_interrupted_def called_once [symmetric] split: if_splits)
      then show ?thesis by cases blast+
    qed
  qed
qed




subsection \<open>The buffer sizes\<close>

lemma setBufSize_round_eq:
  assumes "thrown (reply w) = None"
    and "d = ret (reply w)" and "c = getPropertyAsIntWithDefault inst (size_prop n) d"
    and "w1 = called (get_size_call n (m_fd t)) w"
    and "a = ret (replies w (length (calls w) + 2))"
  shows "setBufSize_round inst n t w =
    (if c < 28 then (None, set_size_field n d t, put (WarnInvalidSize (size_prop n) c d) w1)
     else if c = d then (None, set_size_field n d t, w1)
     else case thrown (reply w1) of
       Some e \<Rightarrow> (Some (Throw e), set_size_field n d t,
                  snd (helper (set_size_call n (m_fd t) c) w1))
     | None \<Rightarrow>
       (case thrown (replies w (length (calls w) + 2)) of
          Some e \<Rightarrow> (Some (Throw e), set_size_field n d t,
                     snd (helper (get_size_call n (m_fd t))
                            (called (set_size_call n (m_fd t) c) w1)))
        | None \<Rightarrow> (None, set_size_field n a t,
                    put_if (a < c) (WarnAdjustedSize (direction n) c a)
                      (called (get_size_call n (m_fd t)) (called (set_size_call n (m_fd t) c) w1)))))"
  using assms
  by (cases "n = 0")
     (simp_all add: setBufSize_round_def on_return_def helper_eq effect_def Let_def size_prop_def
      direction_def get_size_call_def set_size_call_def set_size_field_def put_if_def
      udpOverhead_def split: option.splits)

text \<open>
  C7 (amended). For each direction (round \<open>n\<close> of the loop), with \<open>d\<close> the default that the
  operating system reports and \<open>c\<close> the configured value (\<open>d\<close> when none is configured): a
  value below 28 is discarded with a warning and \<open>d\<close> is stored; a value equal to \<open>d\<close>
  leaves \<open>d\<close>; any other value is requested from the operating system and the size \<open>a\<close>
  that is read back is stored, not the requested one, with a warning if \<open>a < c\<close>. The
  stored size is at least 28 whenever the sizes that the operating system reports, \<open>d\<close>
  and \<open>a\<close>, are.
\<close>

theorem buffer_size_negotiation:
  assumes "thrown (reply w) = None"
    and "d = ret (reply w)" and "c = getPropertyAsIntWithDefault inst (size_prop n) d"
    and "w1 = called (get_size_call n (m_fd t)) w"
    and "w3 = called (get_size_call n (m_fd t)) (called (set_size_call n (m_fd t) c) w1)"
    and "a = ret (replies w (length (calls w) + 2))"
  shows "(c < 28 \<longrightarrow>
            setBufSize_round inst n t w =
              (None, set_size_field n d t, put (WarnInvalidSize (size_prop n) c d) w1))
       \<and> (28 \<le> c \<and> c = d \<longrightarrow> setBufSize_round inst n t w = (None, set_size_field n d t, w1))
       \<and> (28 \<le> c \<and> c \<noteq> d \<and> thrown (reply w1) = None
            \<and> thrown (replies w (length (calls w) + 2)) = None \<longrightarrow>
            setBufSize_round inst n t w =
              (None, set_size_field n a t,
               (if a < c then put (WarnAdjustedSize (direction n) c a) w3 else w3)))
       \<and> (28 \<le> d \<and> 28 \<le> a \<longrightarrow> 28 \<le> size_field n (fst (snd (setBufSize_round inst n t w))))"
proof -
  have sf: "size_field n (set_size_field n v t) = v" for v
    by (simp add: size_field_def set_size_field_def)
  note eq = setBufSize_round_eq [OF assms(1-4,6)]
  show ?thesis
    unfolding eq using assms(5)
    by (auto simp: sf put_if_def split: option.splits)
qed

theorem buffer_size_negotiation_witness:
  "setBufSize_round (ex_instance\<lparr>properties := [''Ice.UDP.RcvSize'' \<mapsto> 65536]\<rparr>) 0 ex_transceiver
     (fresh (script [returned 8192, ok_reply, returned 16384])) =
   (None, ex_transceiver\<lparr>m_rcvSize := 16384\<rparr>,
    put (WarnAdjustedSize ''receive'' 65536 16384)
      (called (GetRecvBufferSize 3) (called (SetRecvBufferSize 3 65536) (called (GetRecvBufferSize 3)
         (fresh (script [returned 8192, ok_reply, returned 16384]))))))"
  using buffer_size_negotiation [of "fresh (script [returned 8192, ok_reply, returned 16384])"
      8192 65536 "ex_instance\<lparr>properties := [''Ice.UDP.RcvSize'' \<mapsto> 65536]\<rparr>" 0
      "called (GetRecvBufferSize 3) (fresh (script [returned 8192, ok_reply, returned 16384]))"
      ex_transceiver
      "called (GetRecvBufferSize 3) (called (SetRecvBufferSize 3 65536) (called (GetRecvBufferSize 3)
         (fresh (script [returned 8192, ok_reply, returned 16384]))))" 16384]
  by (simp add: getPropertyAsIntWithDefault_def size_prop_def get_size_call_def set_size_call_def
      set_size_field_def direction_def ex_instance_def ex_defs)

text \<open>
  The claim as stated promises a stored size of at least 28 in every case. The floor is
  only applied to the configured value: with a default of 16 bytes and nothing
  configured, the stored receive size is 16.
\<close>

theorem buffer_size_negotiation_counterexample:
  "(case setBufSize ex_instance ex_transceiver (fresh (script [returned 16, returned 8192])) of
      (f, t, w) \<Rightarrow> f = None \<and> m_rcvSize t = 16 \<and> m_rcvSize t < 28)"
  by (simp add: setBufSize_def setBufSize_round_def on_return_def helper_eq Let_def
      getPropertyAsIntWithDefault_def put_if_def ex_instance_def ex_defs)

subsection \<open>Failed construction\<close>

lemma catch_all_thrown:
  "catch_all x = (Some (Throw e), t, w) \<Longrightarrow> m_fd t = INVALID_SOCKET"
  by (auto simp: catch_all_def split: prod.splits option.splits failure.splits)

lemma after_socketD:
  "after_socket fd s \<Longrightarrow> m_fd t = fd \<Longrightarrow> fd \<in> set (opened w) \<Longrightarrow> passed fd (s t w)"
  by (simp add: after_socket_def)

lemma helper_after_socket:
  assumes "fd \<in> set (opened w)" and "\<not> is_close c" and "socket_of c = Some fd"
  shows "case helper c w of
           (Inl e, w') \<Rightarrow> failed_at e fd w'
         | (Inr r, w') \<Rightarrow> fd \<in> set (opened w')"
  using assms
  by (auto simp: helper_eq failed_at_def forget_def effect_def is_close_def reply_def
      split: option.splits call.splits)

lemma on_return_passed:
  assumes "fd \<in> set (opened w)" and "\<not> is_close c" and "socket_of c = Some fd"
    and "\<And>r w1. fd \<in> set (opened w1) \<Longrightarrow> passed fd (k r w1)"
  shows "passed fd (on_return (helper c w) t k)"
proof (cases "helper c w")
  case (Pair x w1)
  show ?thesis
  proof (cases x)
    case (Inl e)
    with Pair helper_after_socket [OF assms(1,2,3)] show ?thesis
      by (simp add: on_return_def passed_def)
  next
    case (Inr r)
    with Pair helper_after_socket [OF assms(1,2,3)] have "fd \<in> set (opened w1)" by simp
    then have "passed fd (k r w1)" by (rule assms(4))
    with Pair Inr show ?thesis by (simp add: on_return_def)
  qed
qed

lemma passed_None [simp]: "passed fd (None, t, w) = (m_fd t = fd \<and> fd \<in> set (opened w))"
  by (simp add: passed_def)

lemma after_socket_call_stmt:
  "(\<And>t. \<not> is_close (c t) \<and> socket_of (c t) = Some (m_fd t)) \<Longrightarrow> after_socket fd (call_stmt c)"
  by (auto simp: after_socket_def call_stmt_def intro!: on_return_passed)

lemma after_socket_trace_stmt [simp]: "after_socket fd (trace_stmt level msg)"
  by (simp add: after_socket_def trace_stmt_def)

lemma after_socket_assign_stmt: "(\<And>t. m_fd (g t) = m_fd t) \<Longrightarrow> after_socket fd (assign_stmt g)"
  by (simp add: after_socket_def assign_stmt_def)

lemma after_socket_when_stmt [simp]: "after_socket fd s \<Longrightarrow> after_socket fd (when_stmt c s)"
  by (simp add: after_socket_def when_stmt_def)

lemma after_socket_seq [simp]: "list_all (after_socket fd) ss \<Longrightarrow> after_socket fd (seq ss)"
proof (induction ss)
  case Nil
  show ?case by (simp add: after_socket_def)
next
  case (Cons s ss)
  then have s: "after_socket fd s" and ss: "after_socket fd (seq ss)" by simp_all
  show ?case
    unfolding after_socket_def
  proof (intro allI impI)
    fix t :: transceiver and w :: world
    assume a: "m_fd t = fd \<and> fd \<in> set (opened w)"
    obtain f t1 w1 where st: "s t w = (f, t1, w1)" by (cases "s t w") auto
    from after_socketD [OF s, of t w] a st have p: "passed fd (f, t1, w1)" by simp
    show "passed fd (seq (s # ss) t w)"
    proof (cases f)
      case None
      with p have "m_fd t1 = fd" "fd \<in> set (opened w1)" by simp_all
      from after_socketD [OF ss this] st None show ?thesis by simp
    next
      case (Some x)
      with p st show ?thesis by simp
    qed
  qed
qed

lemma after_socket_setBufSize_round [simp]: "after_socket fd (setBufSize_round inst n)"
  by (auto simp: after_socket_def setBufSize_round_def Let_def is_close_def socket_of_def
      intro!: on_return_passed)

lemma after_socket_setBufSize [simp]: "after_socket fd (setBufSize inst)"
proof -
  have "after_socket fd (seq [setBufSize_round inst 0, setBufSize_round inst 1])" by simp
  then show ?thesis by (simp add: after_socket_def setBufSize_def passed_def)
qed

lemma resolve_wildcard:
  "resolve [] port w = (Inr (reply w), called (GetAddressForServer [] port) w)"
  by (simp add: resolve_def os_call_eq)

lemma after_socket_bind_multicast [simp]: "after_socket fd (bind_multicast p)"
proof -
  have "passed fd (call_stmt (\<lambda>t. DoBind (m_fd t) (a t)) t w)"
    if "m_fd t = fd" "fd \<in> set (opened w)" for a t w
    using after_socket_call_stmt [of "\<lambda>t. DoBind (m_fd t) (a t)" fd] that
    by (simp add: after_socket_def is_close_def socket_of_def)
  from this [of _ _ "\<lambda>t. m_addr t"] this [of _ _ "\<lambda>t. x" for x] show ?thesis
    by (simp add: after_socket_def bind_multicast_def resolve_wildcard on_return_def)
qed

lemma createSocket_passed:
  "thrown (reply w) = None \<Longrightarrow>
   createSocket t w = (None, t\<lparr>m_fd := ret (reply w)\<rparr>,
     (called (CreateSocket True (ss_family (m_addr t))) w)
       \<lparr>opened := opened w @ [ret (reply w)]\<rparr>)"
  by (simp add: createSocket_def on_return_def helper_eq effect_def)

lemma catch_all_passed:
  "catch_all x = (Some (Throw e), t, w) \<Longrightarrow> passed fd x \<Longrightarrow> failed_at e fd w"
  by (auto simp: catch_all_def passed_def split: prod.splits option.splits failure.splits)

lemma getAddressForServer_returned:
  "thrown (reply w) = None \<Longrightarrow>
   getAddressForServer host port t w =
     (None, t\<lparr>m_addr := address (reply w)\<rparr>, called (GetAddressForServer host port) w)"
  by (simp add: getAddressForServer_def resolve_def on_return_def helper_eq os_call_eq effect_def)

lemma connect_passed:
  assumes "thrown (reply w) = None"
  shows "\<exists>x. UdpTransceiver_connect inst addr mcastInterface mcastTtl raw w = catch_all x
             \<and> passed (ret (reply w)) x"
proof -
  let ?fd = "ret (reply w)"
  let ?rest = "[setBufSize inst,
         call_stmt (\<lambda>t. SetBlock (m_fd t) False),
         call_stmt (\<lambda>t. DoConnect (m_fd t) (m_addr t) (- 1)),
         assign_stmt (\<lambda>t. t\<lparr>m_connect := False\<rparr>),
         when_stmt (\<lambda>t. multicast (m_addr t) \<and> length mcastInterface > 0)
           (call_stmt (\<lambda>t. SetMcastInterface (m_fd t) mcastInterface
                              (ss_family (m_addr t) = AF_INET))),
         when_stmt (\<lambda>t. multicast (m_addr t) \<and> mcastTtl \<noteq> - 1)
           (call_stmt (\<lambda>t. SetMcastTtl (m_fd t) mcastTtl (ss_family (m_addr t) = AF_INET))),
         trace_stmt 1 ''starting to send udp packets'']"
  have rest: "after_socket ?fd (seq ?rest)"
    by (rule after_socket_seq)
       (simp add: after_socket_call_stmt after_socket_assign_stmt is_close_def socket_of_def)
  let ?t0 = "raw\<lparr>m_traceLevels := traceLevels inst,
             m_stats := stats inst,
             m_incoming := False,
             m_addr := addr,
             m_connect := True,
             m_warn := (getPropertyAsInt inst ''Ice.Warn.Datagrams'' > 0),
             m_shutdownReadWrite := False\<rparr>"
  let ?t1 = "?t0\<lparr>m_fd := ?fd\<rparr>"
  let ?w1 = "(called (CreateSocket True (ss_family (m_addr ?t0))) w)\<lparr>opened := opened w @ [?fd]\<rparr>"
  have "seq (createSocket # ?rest) ?t0 w = seq ?rest ?t1 ?w1"
    by (simp only: seq.simps createSocket_passed [OF assms] prod.case option.case)
  moreover have "passed ?fd (seq ?rest ?t1 ?w1)"
    by (rule after_socketD [OF rest]) simp_all
  ultimately show ?thesis
    unfolding UdpTransceiver_connect_def by (intro exI [of _ "seq ?rest ?t1 ?w1"]) simp
qed

lemma bind_passed:
  assumes "thrown (reply w) = None" and "thrown (replies w (Suc (length (calls w)))) = None"
  shows "\<exists>x. UdpTransceiver_bind p inst host port mcastInterface c raw w = catch_all x
             \<and> passed (ret (replies w (Suc (length (calls w))))) x"
proof -
  let ?fd = "ret (replies w (Suc (length (calls w))))"
  let ?rest = "[setBufSize inst,
         call_stmt (\<lambda>t. SetBlock (m_fd t) False),
         trace_stmt 2 ''attempting to bind to udp socket'',
         when_stmt (\<lambda>t. multicast (m_addr t))
           (seq [call_stmt (\<lambda>t. SetReuseAddress (m_fd t) True),
                 bind_multicast p,
                 call_stmt (\<lambda>t. SetMcastGroup (m_fd t) (m_addr t) mcastInterface),
                 assign_stmt (\<lambda>t. t\<lparr>m_mcastServer := True\<rparr>)]),
         when_stmt (\<lambda>t. \<not> multicast (m_addr t))
           (seq [when_stmt (\<lambda>t. \<not> WIN32 p) (call_stmt (\<lambda>t. SetReuseAddress (m_fd t) True)),
                 call_stmt (\<lambda>t. DoBind (m_fd t) (m_addr t))]),
         trace_stmt 1 ''starting to receive udp packets'']"
  have rest: "after_socket ?fd (seq ?rest)"
    by (rule after_socket_seq)
       (simp add: after_socket_call_stmt after_socket_assign_stmt is_close_def socket_of_def)
  have cs: "thrown (reply (called (GetAddressForServer host port) w)) = None"
    using assms(2) by simp
  let ?t0 = "raw\<lparr>m_traceLevels := traceLevels inst,
             m_stats := stats inst,
             m_incoming := True,
             m_connect := c,
             m_warn := (getPropertyAsInt inst ''Ice.Warn.Datagrams'' > 0),
             m_shutdownReadWrite := False\<rparr>"
  let ?ta = "?t0\<lparr>m_addr := address (reply w)\<rparr>"
  let ?wa = "called (GetAddressForServer host port) w"
  let ?t1 = "?ta\<lparr>m_fd := ret (reply ?wa)\<rparr>"
  let ?w1 = "(called (CreateSocket True (ss_family (m_addr ?ta))) ?wa)
               \<lparr>opened := opened ?wa @ [ret (reply ?wa)]\<rparr>"
  have "seq (getAddressForServer host port # createSocket # ?rest) ?t0 w = seq ?rest ?t1 ?w1"
    by (simp only: seq.simps getAddressForServer_returned [OF assms(1)]
        createSocket_passed [OF cs] prod.case option.case)
  moreover have "passed ?fd (seq ?rest ?t1 ?w1)"
    by (rule after_socketD [OF rest]) simp_all
  ultimately show ?thesis
    unfolding UdpTransceiver_bind_def by (intro exI [of _ "seq ?rest ?t1 ?w1"]) simp
qed

lemma propagatesD: "propagates s \<Longrightarrow> loud w (s t w)"
  by (simp add: propagates_def)

lemma loud_same:
  "calls w' = calls w \<Longrightarrow> replies w' = replies w \<Longrightarrow> loud w (f, t, w')"
  by (auto simp: loud_def raised_def)

lemma loud_cong:
  "calls w0 = calls w \<Longrightarrow> replies w0 = replies w \<Longrightarrow> loud w0 x = loud w x"
  by (simp add: loud_def split: prod.splits)

lemma loud_step:
  assumes "loud w1 x" and "replies w1 = replies w" and "calls w1 = calls w @ cs"
    and "\<And>k e. length (calls w) \<le> k \<Longrightarrow> \<not> raised w1 k e"
  shows "loud w x"
proof -
  obtain f t' w' where x: "x = (f, t', w')" by (cases x) auto
  from assms(1) x obtain cs' where r: "replies w' = replies w1"
    and c: "calls w' = calls w1 @ cs'"
    and l: "\<And>k e. length (calls w1) \<le> k \<Longrightarrow> raised w' k e \<Longrightarrow>
              f = Some (Throw e) \<and> Suc k = length (calls w')"
    by (auto simp: loud_def)
  have "f = Some (Throw e) \<and> Suc k = length (calls w')"
    if "length (calls w) \<le> k" and "raised w' k e" for k e
  proof (cases "length (calls w1) \<le> k")
    case True
    then show ?thesis using that(2) by (rule l)
  next
    case False
    with that(2) r c have "raised w1 k e" by (simp add: raised_def nth_append)
    with assms(4) [OF that(1)] show ?thesis by simp
  qed
  with r c assms(2,3) x show ?thesis by (auto simp: loud_def)
qed

lemma on_return_loud_same:
  assumes "\<not> is_wildcard c"
    and "\<And>r w1. replies w1 = replies w \<Longrightarrow> calls w1 = calls w @ [c] \<Longrightarrow> loud w1 (k r w1)"
  shows "loud w (on_return (helper c w) t k)"
proof (cases "thrown (reply w)")
  case None
  let ?w1 = "effect c (reply w) (called c w)"
  have h: "helper c w = (Inr (reply w), ?w1)" using None by (simp add: helper_eq)
  have "loud ?w1 (k (reply w) ?w1)" by (rule assms(2)) simp_all
  then have "loud w (k (reply w) ?w1)"
  proof (rule loud_step)
    show "calls ?w1 = calls w @ [c]" by simp
    show "\<not> raised ?w1 k e" if "length (calls w) \<le> k" for k e
      using that None by (auto simp: raised_def reply_def less_Suc_eq)
  qed simp
  with h show ?thesis by (simp add: on_return_def)
next
  case (Some e)
  then have h: "helper c w = (Inl e, forget (socket_of c) (called c w))"
    by (simp add: helper_eq)
  show ?thesis
    unfolding h using Some
    by (auto simp: on_return_def loud_def raised_def reply_def less_Suc_eq)
qed

lemma on_return_loud:
  assumes "\<not> is_wildcard c" and "calls w = calls w0" and "replies w = replies w0"
    and "\<And>r w1. replies w1 = replies w \<Longrightarrow> calls w1 = calls w @ [c] \<Longrightarrow> loud w1 (k r w1)"
  shows "loud w0 (on_return (helper c w) t k)"
proof -
  have "loud w (on_return (helper c w) t k)"
    using assms(1) by (rule on_return_loud_same) (rule assms(4))
  with loud_cong [OF assms(2,3)] show ?thesis by simp
qed

lemma propagates_call_stmt: "(\<And>t. \<not> is_wildcard (c t)) \<Longrightarrow> propagates (call_stmt c)"
  by (auto simp: propagates_def call_stmt_def intro!: on_return_loud loud_same)

lemma propagates_trace_stmt [simp]: "propagates (trace_stmt level msg)"
  by (simp add: propagates_def trace_stmt_def loud_same)

lemma propagates_assign_stmt [simp]: "propagates (assign_stmt g)"
  by (simp add: propagates_def assign_stmt_def loud_same)

lemma propagates_when_stmt [simp]: "propagates s \<Longrightarrow> propagates (when_stmt c s)"
  by (simp add: propagates_def when_stmt_def loud_same)

lemma propagates_seq [simp]: "list_all propagates ss \<Longrightarrow> propagates (seq ss)"
proof (induction ss)
  case Nil
  show ?case by (simp add: propagates_def loud_same)
next
  case (Cons s ss)
  then have s: "propagates s" and ss: "propagates (seq ss)" by simp_all
  show ?case
    unfolding propagates_def
  proof (intro allI)
    fix t w
    obtain f t1 w1 where st: "s t w = (f, t1, w1)" by (cases "s t w") auto
    from propagatesD [OF s, of w t] st have l: "loud w (f, t1, w1)" by simp
    show "loud w (seq (s # ss) t w)"
    proof (cases f)
      case None
      from l obtain cs where r: "replies w1 = replies w" and c: "calls w1 = calls w @ cs"
        by (auto simp: loud_def)
      have "loud w (seq ss t1 w1)"
      proof (rule loud_step [OF propagatesD [OF ss] r c])
        show "\<not> raised w1 k e" if "length (calls w) \<le> k" for k e
          using l None that by (auto simp: loud_def)
      qed
      with st None show ?thesis by simp
    next
      case (Some x)
      with l st show ?thesis by simp
    qed
  qed
qed

lemma propagates_createSocket [simp]: "propagates createSocket"
  by (auto simp: propagates_def createSocket_def is_wildcard_def intro!: on_return_loud loud_same)

lemma propagates_getAddressForServer [simp]: "propagates (getAddressForServer host port)"
proof (cases "host = []")
  case True
  then show ?thesis
    by (simp add: propagates_def getAddressForServer_def resolve_def os_call_eq on_return_def
        loud_def raised_def is_wildcard_def less_Suc_eq nth_append)
next
  case False
  then show ?thesis
    by (auto simp: propagates_def getAddressForServer_def resolve_def is_wildcard_def
        intro!: on_return_loud loud_same)
qed

lemma propagates_setBufSize_round [simp]: "propagates (setBufSize_round inst n)"
  by (auto simp: propagates_def setBufSize_round_def Let_def is_wildcard_def
      intro!: on_return_loud loud_same)

lemma propagates_setBufSize [simp]: "propagates (setBufSize inst)"
proof -
  have "propagates (seq [setBufSize_round inst 0, setBufSize_round inst 1])" by simp
  then show ?thesis by (simp add: propagates_def setBufSize_def loud_same)
qed

lemma propagates_bind_multicast [simp]: "propagates (bind_multicast p)"
proof -
  have b: "loud w (call_stmt (\<lambda>t. DoBind (m_fd t) (a t)) t w)" for a t w
    using propagates_call_stmt [of "\<lambda>t. DoBind (m_fd t) (a t)"]
    by (simp add: propagates_def is_wildcard_def)
  have "loud w (call_stmt (\<lambda>t. DoBind (m_fd t) x) t (called (GetAddressForServer [] port) w))"
    for x port t w
  proof (rule loud_step [OF b])
    show "calls (called (GetAddressForServer [] port) w) = calls w @ [GetAddressForServer [] port]"
      by simp
    show "\<not> raised (called (GetAddressForServer [] port) w) k e" if "length (calls w) \<le> k" for k e
      using that by (auto simp: raised_def is_wildcard_def less_Suc_eq)
  qed simp
  with b [of _ "\<lambda>t. m_addr t"] show ?thesis
    by (simp add: propagates_def bind_multicast_def resolve_wildcard on_return_def)
qed

lemma loud_catch_all [simp]: "loud w (catch_all x) = loud w x"
  by (auto simp: catch_all_def loud_def split: prod.splits option.splits failure.splits)

lemma connect_propagates:
  "loud w (UdpTransceiver_connect inst addr mcastInterface mcastTtl raw w)"
proof -
  have "propagates (seq
        [createSocket,
         setBufSize inst,
         call_stmt (\<lambda>t. SetBlock (m_fd t) False),
         call_stmt (\<lambda>t. DoConnect (m_fd t) (m_addr t) (- 1)),
         assign_stmt (\<lambda>t. t\<lparr>m_connect := False\<rparr>),
         when_stmt (\<lambda>t. multicast (m_addr t) \<and> length mcastInterface > 0)
           (call_stmt (\<lambda>t. SetMcastInterface (m_fd t) mcastInterface
                              (ss_family (m_addr t) = AF_INET))),
         when_stmt (\<lambda>t. multicast (m_addr t) \<and> mcastTtl \<noteq> - 1)
           (call_stmt (\<lambda>t. SetMcastTtl (m_fd t) mcastTtl (ss_family (m_addr t) = AF_INET))),
         trace_stmt 1 ''starting to send udp packets''])"
    by (rule propagates_seq) (simp add: propagates_call_stmt is_wildcard_def)
  from propagatesD [OF this] show ?thesis
    unfolding UdpTransceiver_connect_def loud_catch_all .
qed

lemma bind_propagates:
  "loud w (UdpTransceiver_bind p inst host port mcastInterface c raw w)"
proof -
  have "propagates (seq
        [getAddressForServer host port,
         createSocket,
         setBufSize inst,
         call_stmt (\<lambda>t. SetBlock (m_fd t) False),
         trace_stmt 2 ''attempting to bind to udp socket'',
         when_stmt (\<lambda>t. multicast (m_addr t))
           (seq [call_stmt (\<lambda>t. SetReuseAddress (m_fd t) True),
                 bind_multicast p,
                 call_stmt (\<lambda>t. SetMcastGroup (m_fd t) (m_addr t) mcastInterface),
                 assign_stmt (\<lambda>t. t\<lparr>m_mcastServer := True\<rparr>)]),
         when_stmt (\<lambda>t. \<not> multicast (m_addr t))
           (seq [when_stmt (\<lambda>t. \<not> WIN32 p) (call_stmt (\<lambda>t. SetReuseAddress (m_fd t) True)),
                 call_stmt (\<lambda>t. DoBind (m_fd t) (m_addr t))]),
         trace_stmt 1 ''starting to receive udp packets''])"
    by (rule propagates_seq) (simp add: propagates_call_stmt is_wildcard_def)
  from propagatesD [OF this] show ?thesis
    unfolding UdpTransceiver_bind_def loud_catch_all .
qed

lemma ex_bind_fails:
  "UdpTransceiver_bind OtherUnix ex_instance ''127.0.0.1'' 10000 [] False ex_transceiver
     (fresh bind_fails) =
   (Some (Throw (SocketException 98)),
    ex_transceiver\<lparr>m_incoming := True, m_fd := INVALID_SOCKET\<rparr>,
    \<lparr>replies = bind_fails,
     calls = [GetAddressForServer ''127.0.0.1'' 10000, CreateSocket True AF_INET,
              GetRecvBufferSize 7, GetSendBufferSize 7, SetBlock 7 False,
              SetReuseAddress 7 True, DoBind 7 ex_addr],
     logged = [], opened = []\<rparr>)"
  by (simp add: UdpTransceiver_bind_def catch_all_def resolve_def
      getAddressForServer_def createSocket_def setBufSize_def setBufSize_round_def call_stmt_def
      trace_stmt_def when_stmt_def assign_stmt_def on_return_def helper_eq effect_def forget_def
      socket_of_def called_def fresh_def reply_def Let_def multicast_def
      IN_MULTICAST_def WIN32_def getPropertyAsIntWithDefault_def getPropertyAsInt_def
      put_if_def bind_fails_def ex_instance_def ex_defs)

lemma ex_connect_fails:
  "UdpTransceiver_connect ex_instance ex_addr [] (- 1) ex_transceiver (fresh connect_fails) =
   (Some (Throw (ConnectFailedException 101)),
    ex_transceiver\<lparr>m_connect := True, m_fd := INVALID_SOCKET\<rparr>,
    \<lparr>replies = connect_fails,
     calls = [CreateSocket True AF_INET, GetRecvBufferSize 7, GetSendBufferSize 7,
              SetBlock 7 False, DoConnect 7 ex_addr (- 1)],
     logged = [], opened = []\<rparr>)"
  by (simp add: UdpTransceiver_connect_def catch_all_def
      createSocket_def setBufSize_def setBufSize_round_def call_stmt_def
      trace_stmt_def when_stmt_def assign_stmt_def on_return_def helper_eq effect_def forget_def
      socket_of_def called_def fresh_def reply_def Let_def multicast_def
      IN_MULTICAST_def WIN32_def getPropertyAsIntWithDefault_def getPropertyAsInt_def
      put_if_def connect_fails_def ex_instance_def ex_defs)



end
